theory Spec2Isabelle
  imports Main "HOL-Library.Multiset" "HOL-Library.AList"
begin

section \<open>Go string primitives\<close>

text \<open>
  A Go string is a sequence of bytes, here a \<open>string\<close> (a list of 8-bit \<open>char\<close>s).
  The functions of package \<open>strings\<close> that the scanner and the indicator loader call
  are written out below, byte for byte.  \<open>strings.Index\<close> returns \<open>-1\<close> when the
  substring is absent; here that is \<open>None\<close>.
\<close>

fun hasPrefix :: "string \<Rightarrow> string \<Rightarrow> bool" where
  "hasPrefix s [] = True"
| "hasPrefix [] (p # ps) = False"
| "hasPrefix (c # cs) (p # ps) = (c = p \<and> hasPrefix cs ps)"

definition hasSuffix :: "string \<Rightarrow> string \<Rightarrow> bool" where
  "hasSuffix s suf = hasPrefix (rev s) (rev suf)"

definition trimPrefix :: "string \<Rightarrow> string \<Rightarrow> string" where
  "trimPrefix s p = (if hasPrefix s p then drop (length p) s else s)"

definition trimSuffix :: "string \<Rightarrow> string \<Rightarrow> string" where
  "trimSuffix s suf = (if hasSuffix s suf then take (length s - length suf) s else s)"

fun strIndex :: "string \<Rightarrow> string \<Rightarrow> nat option" where
  "strIndex [] sub = (if sub = [] then Some 0 else None)"
| "strIndex (c # cs) sub =
     (if hasPrefix (c # cs) sub then Some 0 else map_option Suc (strIndex cs sub))"

definition strLastIndex :: "string \<Rightarrow> string \<Rightarrow> nat option" where
  "strLastIndex s sub =
     (case strIndex (rev s) (rev sub) of
        None \<Rightarrow> None
      | Some i \<Rightarrow> Some (length s - i - length sub))"

definition strContains :: "string \<Rightarrow> string \<Rightarrow> bool" where
  "strContains s sub = (strIndex s sub \<noteq> None)"

text \<open>
  \<open>strings.Split s sep\<close> for a non-empty separator: the pieces between the
  non-overlapping occurrences of \<open>sep\<close>, found from the left.  Every call in the
  program passes a constant, non-empty separator.
\<close>

fun splitStr :: "string \<Rightarrow> string \<Rightarrow> string list" where
  "splitStr [] sep = [[]]"
| "splitStr (c # cs) sep =
     (if hasPrefix (c # cs) sep then [] # splitStr (drop (length sep - 1) cs) sep
      else (case splitStr cs sep of [] \<Rightarrow> [[c]] | p # ps \<Rightarrow> (c # p) # ps))"

text \<open>
  \<open>strings.SplitN s sep n\<close> for \<open>n \<ge> 0\<close>: at most \<open>n\<close> pieces, the last one the
  unsplit rest.
\<close>

fun splitN :: "string \<Rightarrow> string \<Rightarrow> nat \<Rightarrow> string list" where
  "splitN s sep 0 = []"
| "splitN s sep (Suc 0) = [s]"
| "splitN s sep (Suc (Suc n)) =
     (case strIndex s sep of
        None \<Rightarrow> [s]
      | Some i \<Rightarrow> take i s # splitN (drop (i + length sep) s) sep (Suc n))"

text \<open>
  \<open>strings.TrimSpace\<close> removes the leading and trailing white space as Unicode
  defines it.  On the UTF-8 bytes of a Go string the white-space runes are the six
  ASCII ones, U+0085 and U+00A0 (two bytes), and U+1680, U+2000 to U+200A, U+2028,
  U+2029, U+202F, U+205F and U+3000 (three bytes).  \<open>spaceWidth\<close> is the number of
  bytes of the white-space rune a string starts with (0 when it starts with none),
  \<open>spaceWidthRev\<close> the same for the end of a string, read on the reversed bytes.
\<close>

definition asciiSpace :: "char \<Rightarrow> bool" where
  "asciiSpace c = (c = CHR 0x09 \<or> c = CHR 0x0A \<or> c = CHR 0x0B \<or> c = CHR 0x0C
                    \<or> c = CHR 0x0D \<or> c = CHR 0x20)"

definition space3 :: "char \<Rightarrow> char \<Rightarrow> char \<Rightarrow> bool" where
  "space3 a b c =
     (if a = CHR 0xE1 then b = CHR 0x9A \<and> c = CHR 0x80
      else if a = CHR 0xE2 then
        (if b = CHR 0x80
         then ((128::nat) \<le> of_char c \<and> of_char c \<le> (138::nat))
              \<or> c = CHR 0xA8 \<or> c = CHR 0xA9 \<or> c = CHR 0xAF
         else b = CHR 0x81 \<and> c = CHR 0x9F)
      else a = CHR 0xE3 \<and> b = CHR 0x80 \<and> c = CHR 0x80)"

definition space2 :: "char \<Rightarrow> char \<Rightarrow> bool" where
  "space2 a b = (a = CHR 0xC2 \<and> (b = CHR 0x85 \<or> b = CHR 0xA0))"

fun spaceWidth :: "string \<Rightarrow> nat" where
  "spaceWidth [] = 0"
| "spaceWidth [a] = (if asciiSpace a then 1 else 0)"
| "spaceWidth [a, b] = (if asciiSpace a then 1 else if space2 a b then 2 else 0)"
| "spaceWidth (a # b # c # s) =
     (if asciiSpace a then 1 else if space2 a b then 2 else if space3 a b c then 3 else 0)"

fun spaceWidthRev :: "string \<Rightarrow> nat" where
  "spaceWidthRev [] = 0"
| "spaceWidthRev [a] = (if asciiSpace a then 1 else 0)"
| "spaceWidthRev [b, a] = (if asciiSpace b then 1 else if space2 a b then 2 else 0)"
| "spaceWidthRev (c # b # a # s) =
     (if asciiSpace c then 1 else if space2 b c then 2 else if space3 a b c then 3 else 0)"

fun trimLeftSpace :: "string \<Rightarrow> string" where
  "trimLeftSpace [] = []"
| "trimLeftSpace (c # cs) =
     (if spaceWidth (c # cs) = 0 then c # cs
      else trimLeftSpace (drop (spaceWidth (c # cs) - 1) cs))"

fun trimRightSpaceRev :: "string \<Rightarrow> string" where
  "trimRightSpaceRev [] = []"
| "trimRightSpaceRev (c # cs) =
     (if spaceWidthRev (c # cs) = 0 then c # cs
      else trimRightSpaceRev (drop (spaceWidthRev (c # cs) - 1) cs))"

definition trimSpace :: "string \<Rightarrow> string" where
  "trimSpace s = rev (trimRightSpaceRev (rev (trimLeftSpace s)))"

text \<open>\<open>strings.Trim s cutset\<close> for a cutset of ASCII characters.\<close>

definition trimCutset :: "string \<Rightarrow> string \<Rightarrow> string" where
  "trimCutset s cutset =
     rev (dropWhile (\<lambda>c. c \<in> set cutset) (rev (dropWhile (\<lambda>c. c \<in> set cutset) s)))"

section \<open>Package records and the pnpm key parser (internal/scanner/parser.go)\<close>

record Package =
  Name :: string
  Version :: string
  IsDev :: bool
  Source :: string

definition stripPnpmPeerDepSuffix :: "string \<Rightarrow> string" where
  "stripPnpmPeerDepSuffix version0 =
     (let version = (case strIndex version0 ''('' of
                       Some idx \<Rightarrow> if idx > 0 then take idx version0 else version0
                     | None \<Rightarrow> version0)
      in case strIndex version ''_'' of
           Some idx \<Rightarrow>
             if idx > 0 \<and> strContains (drop (idx + 1) version) ''@''
             then take idx version else version
         | None \<Rightarrow> version)"

text \<open>
  \<open>stripPnpmPeerDepSuffix\<close> and \<open>parsePnpmPackageKey\<close> follow the Go functions of the
  same names.  \<open>pnpmSlashSplit\<close> is the split at the last slash with which both
  branches of \<open>parsePnpmPackageKey\<close> end.
\<close>

definition pnpmSlashSplit :: "string \<Rightarrow> string \<times> string" where
  "pnpmSlashSplit key =
     (case strLastIndex key ''/'' of
        Some idx \<Rightarrow>
          if idx > 0 then (take idx key, stripPnpmPeerDepSuffix (drop (idx + 1) key))
          else ('''', '''')
      | None \<Rightarrow> ('''', ''''))"

definition parsePnpmPackageKey :: "string \<Rightarrow> string \<times> string" where
  "parsePnpmPackageKey key0 =
     (let key = trimPrefix key0 ''/'' in
      if hasPrefix key ''@'' then
        (let parts = splitN key ''@'' 3 in
         if length parts < 2 then ('''', '''')
         else if length parts = 3
              then (''@'' @ parts ! 1, stripPnpmPeerDepSuffix (parts ! 2))
              else pnpmSlashSplit key)
      else if strContains key ''@'' \<and> length (splitN key ''@'' 2) = 2
           then (splitN key ''@'' 2 ! 0, stripPnpmPeerDepSuffix (splitN key ''@'' 2 ! 1))
           else pnpmSlashSplit key)"


section \<open>The yarn.lock v1 scanner (internal/scanner/parser.go)\<close>

text \<open>
  The Go parsers return \<open>([]*Package, error)\<close>.  The errors are values of
  \<open>parse_error\<close>: \<open>StructuralParseError\<close> carries the message of a document that
  its JSON or YAML decoder refused, \<open>UnsupportedFormatError\<close> is the error that
  \<open>ParseYarnLock\<close> returns for a Yarn Berry lockfile.
\<close>

datatype parse_error = StructuralParseError string | UnsupportedFormatError

text \<open>
  The parser state is the struct \<open>yarnLockParser\<close>; its map \<open>seen\<close> is the set of its
  keys.  \<open>saveName\<close> is the body of the loop of \<open>saveCurrentEntry\<close> over the current
  names, \<open>addYarnName\<close> the body of the loop of \<open>parseYarnDeclarationLine\<close> (its map
  \<open>seenNames\<close> holds the names already in \<open>names\<close>), \<open>skippedLine\<close> the test for
  empty lines and comments that \<open>isYarnBerryFormat\<close> and \<open>ParseYarnLock\<close> both make,
  and \<open>berryLine\<close> and \<open>yarnLine\<close> are the bodies of their loops over the lines.
\<close>

record yarnLockParser =
  packages :: "Package list"
  seen :: "string set"
  currentNames :: "string list"
  currentVer :: string
  inEntry :: bool

definition newYarnLockParser :: yarnLockParser where
  "newYarnLockParser =
     \<lparr>packages = [], seen = {}, currentNames = [], currentVer = [], inEntry = False\<rparr>"

definition saveName :: "string \<Rightarrow> yarnLockParser \<Rightarrow> string \<Rightarrow> yarnLockParser" where
  "saveName ver p name =
     (let pkgKey = name @ ''@'' @ ver in
      if pkgKey \<in> seen p then p
      else p\<lparr>seen := insert pkgKey (seen p),
             packages := packages p @
               [\<lparr>Name = name, Version = ver, IsDev = False, Source = ''transitive''\<rparr>]\<rparr>)"

definition saveCurrentEntry :: "yarnLockParser \<Rightarrow> yarnLockParser" where
  "saveCurrentEntry p =
     (if \<not> inEntry p \<or> currentVer p = [] \<or> length (currentNames p) = 0 then p
      else foldl (saveName (currentVer p)) p (currentNames p))"

definition trimSurroundingQuotes :: "string \<Rightarrow> string" where
  "trimSurroundingQuotes s =
     (if hasPrefix s [CHR 0x22] \<and> hasSuffix s [CHR 0x22]
      then trimPrefix (trimSuffix s [CHR 0x22]) [CHR 0x22]
      else if hasPrefix s [CHR 0x27] \<and> hasSuffix s [CHR 0x27]
      then trimPrefix (trimSuffix s [CHR 0x27]) [CHR 0x27]
      else s)"

definition extractYarnPackageName :: "string \<Rightarrow> string" where
  "extractYarnPackageName entry0 =
     (let entry = (if strContains entry0 ''@npm:'' then splitN entry0 ''@npm:'' 2 ! 0
                   else entry0)
      in if hasPrefix entry ''@'' then
           (case strIndex (drop 1 entry) ''@'' of
              Some idx \<Rightarrow> if idx > 0 then take (idx + 1) entry else entry
            | None \<Rightarrow> entry)
         else splitN entry ''@'' 2 ! 0)"

definition addYarnName :: "string list \<Rightarrow> string \<Rightarrow> string list" where
  "addYarnName names nr =
     (let name = extractYarnPackageName (trimSurroundingQuotes (trimSpace nr)) in
      if name \<noteq> [] \<and> name \<notin> set names then names @ [name] else names)"

definition parseYarnDeclarationLine :: "string \<Rightarrow> string list" where
  "parseYarnDeclarationLine trimmed =
     foldl addYarnName [] (splitStr (trimSuffix trimmed '':'') '','')"

definition isYarnDeclarationLine :: "string \<Rightarrow> string \<Rightarrow> bool" where
  "isYarnDeclarationLine line trimmed =
     (\<not> hasPrefix line '' '' \<and> \<not> hasPrefix line [CHR 0x09] \<and> hasSuffix trimmed '':'')"

definition parseYarnVersionLine :: "string \<Rightarrow> string" where
  "parseYarnVersionLine trimmed =
     (let parts = splitN trimmed '' '' 2 in
      if length parts = 2 then trimCutset (parts ! 1) [CHR 0x22, CHR 0x27] else [])"

definition isBerryVersionRangeStart :: "char \<Rightarrow> bool" where
  "isBerryVersionRangeStart c =
     (c = CHR ''^'' \<or> c = CHR ''~'' \<or> c = CHR ''>'' \<or> c = CHR ''<'' \<or> c = CHR ''=''
      \<or> ((48::nat) \<le> of_char c \<and> of_char c \<le> (57::nat)))"

definition hasBerryStyleNpmPrefix :: "string \<Rightarrow> bool" where
  "hasBerryStyleNpmPrefix trimmed =
     (case strIndex trimmed ''@npm:'' of
        None \<Rightarrow> False
      | Some npmIdx \<Rightarrow>
          (case drop (npmIdx + 5) trimmed of
             [] \<Rightarrow> False
           | c # afterNpm \<Rightarrow> isBerryVersionRangeStart c))"

definition skippedLine :: "string \<Rightarrow> bool" where
  "skippedLine trimmed = (trimmed = [] \<or> hasPrefix trimmed ''#'')"

definition berryLine :: "string \<Rightarrow> bool" where
  "berryLine line =
     (let trimmed = trimSpace line in
      \<not> skippedLine trimmed \<and> hasSuffix trimmed '':'' \<and> hasBerryStyleNpmPrefix trimmed)"

definition isYarnBerryFormat :: "string \<Rightarrow> bool" where
  "isYarnBerryFormat content =
     (strContains content ''__metadata:''
      \<or> list_ex berryLine (splitStr content [CHR 0x0A]))"

definition yarnLine :: "yarnLockParser \<Rightarrow> string \<Rightarrow> yarnLockParser" where
  "yarnLine p line =
     (let trimmed = trimSpace line in
      if skippedLine trimmed then p
      else if isYarnDeclarationLine line trimmed then
        (saveCurrentEntry p)\<lparr>currentNames := parseYarnDeclarationLine trimmed,
                              currentVer := [], inEntry := True\<rparr>
      else if inEntry p \<and> hasPrefix trimmed ''version'' then
        p\<lparr>currentVer := parseYarnVersionLine trimmed\<rparr>
      else p)"

definition ParseYarnLock :: "string \<Rightarrow> bool \<Rightarrow> parse_error + Package list" where
  "ParseYarnLock content includeDev =
     (if isYarnBerryFormat content then Inl UnsupportedFormatError
      else Inr (packages (saveCurrentEntry
                  (foldl yarnLine newYarnLockParser (splitStr content [CHR 0x0A])))))"


section \<open>The indicator database (package vuln)\<close>

text \<open>
  A Go map is modelled as an association list with one pair per key, new keys added
  at the end; \<open>map_of\<close> is the lookup and the length is \<open>len\<close>.  Go does not fix the
  order in which \<open>range\<close> visits a map, so the one loop that ranges over a
  database (\<open>Merge\<close>) takes the order of the visit as a parameter.  The counter
  \<open>totalEntries\<close> is a Go \<open>int\<close> that is only ever incremented by one; it is a
  natural number here.
\<close>

record VulnEntry =
  PackageName :: string
  PackageVersion :: string
  OriginalVersion :: string

record VulnDB =
  entries :: "(string \<times> VulnEntry) list"
  byName :: "(string \<times> VulnEntry list) list"
  totalEntries :: nat

definition NewVulnDB :: VulnDB where
  "NewVulnDB = \<lparr>entries = [], byName = [], totalEntries = 0\<rparr>"

definition entryKey :: "VulnEntry \<Rightarrow> string" where
  "entryKey entry = PackageName entry @ ''@'' @ PackageVersion entry"

definition Add :: "VulnDB \<Rightarrow> VulnEntry \<Rightarrow> VulnDB" where
  "Add db entry =
     (let db1 = db\<lparr>totalEntries := totalEntries db + 1\<rparr>;
          key = entryKey entry
      in case map_of (entries db1) key of
           Some e \<Rightarrow> db1
         | None \<Rightarrow>
             db1\<lparr>entries := entries db1 @ [(key, entry)],
                 byName := AList.update (PackageName entry)
                   ((case map_of (byName db1) (PackageName entry) of
                       None \<Rightarrow> [] | Some es \<Rightarrow> es) @ [entry])
                   (byName db1)\<rparr>)"

definition Check :: "VulnDB \<Rightarrow> string \<Rightarrow> string \<Rightarrow> VulnEntry option" where
  "Check db name version =
     (if name = [] \<or> version = [] then None
      else map_of (entries db) (name @ ''@'' @ version))"

definition Size :: "VulnDB \<Rightarrow> nat" where
  "Size db = length (entries db)"

definition UniquePackages :: "VulnDB \<Rightarrow> nat" where
  "UniquePackages db = length (byName db)"

definition TotalEntries :: "VulnDB \<Rightarrow> nat" where
  "TotalEntries db = totalEntries db"

type_synonym range_order = "(string \<times> VulnEntry) list \<Rightarrow> (string \<times> VulnEntry) list"

definition Merge :: "range_order \<Rightarrow> VulnDB \<Rightarrow> VulnDB option \<Rightarrow> VulnDB" where
  "Merge order db other =
     (case other of
        None \<Rightarrow> db
      | Some odb \<Rightarrow> foldl Add db (map snd (order (entries odb))))"

subsection \<open>Version cells\<close>

text \<open>
  \<open>npmPart\<close> is the body of the loop of \<open>parseNpmVersionSpec\<close>: what one piece
  between \<open>||\<close> contributes, the empty string when the loop appends nothing.
\<close>

definition npmPart :: "string \<Rightarrow> string" where
  "npmPart part0 =
     (let part = trimSpace part0 in
      if part = [] then []
      else if hasPrefix part ''='' then trimSpace (trimPrefix part ''='')
      else part)"

definition parseNpmVersionSpec :: "string \<Rightarrow> string list" where
  "parseNpmVersionSpec versionSpec =
     filter (\<lambda>part. part \<noteq> []) (map npmPart (splitStr versionSpec ''||''))"

definition parseVersionList :: "string \<Rightarrow> string list" where
  "parseVersionList versionField =
     (if strContains versionField ''= '' \<or> hasPrefix versionField ''=''
      then parseNpmVersionSpec versionField
      else (let versions = filter (\<lambda>version. version \<noteq> [])
                             (map trimSpace (splitStr versionField '','')) in
            if length versions = 0 \<and> versionField \<noteq> [] then [versionField]
            else versions))"

subsection \<open>parseCSV\<close>

text \<open>
  \<open>parseCSV\<close> reads its input through \<open>encoding/csv\<close>.  The model starts from what
  the successive calls of \<open>reader.Read\<close> return: a \<open>csv_reader\<close> gives, for
  \<open>i = 0, 1, ...\<close>, the result of the call number \<open>i\<close>, which is \<open>io.EOF\<close>
  (\<open>ReadEOF\<close>), another error with its message (\<open>ReadError\<close>: a line the reader could
  not parse, or a failure of the stream underneath), or a record (\<open>ReadRecord\<close>).  The
  reader is used with its default settings, under which a record whose number of
  fields differs from the first record's comes back with the error \<open>ErrFieldCount\<close>.
  The loop of \<open>parseCSV\<close> that reads the records goes on after every error but
  \<open>io.EOF\<close>, which alone ends it.  So the loop need not end: \<open>readRecords\<close> is a
  partial function, and \<open>parseCSV\<close> and the loaders built on it return an option, where
  \<open>None\<close> stands for a call that does not return.  The warning that \<open>parseCSV\<close> sends
  to the warning callback when a column is found by position only is not part of the
  returned value and is left out.

  \<open>strings.ToLower\<close> lowers the letters A to Z byte by byte when the string is all
  ASCII.  Otherwise it maps every rune through the Unicode tables
  (\<open>strings.Map(unicode.ToLower, s)\<close>); the model takes that mapping as the parameter
  \<open>unicodeLower\<close>.
\<close>

text \<open>
  \<open>findColumns\<close> is the loop over the header (a later matching column replaces an
  earlier one), \<open>columnIndices\<close> adds the positional fall-back, \<open>readRecords\<close> is the
  loop that reads the records (\<open>i\<close> counts the calls of \<open>reader.Read\<close> made so far),
  and \<open>processRecord\<close> with \<open>addVersion\<close> is the body of the loop over the records.
\<close>

datatype csv_read = ReadEOF | ReadError string | ReadRecord "string list"

type_synonym csv_reader = "nat \<Rightarrow> csv_read"

definition toLowerByte :: "char \<Rightarrow> char" where
  "toLowerByte c =
     (if (65::nat) \<le> of_char c \<and> of_char c \<le> (90::nat)
      then char_of (of_char c + (32::nat)) else c)"

definition isASCII :: "string \<Rightarrow> bool" where
  "isASCII s = list_all (\<lambda>c. of_char c < (128::nat)) s"

definition toLower :: "(string \<Rightarrow> string) \<Rightarrow> string \<Rightarrow> string" where
  "toLower unicodeLower s = (if isASCII s then map toLowerByte s else unicodeLower s)"

definition isNameColumn :: "string \<Rightarrow> bool" where
  "isNameColumn colLower =
     (colLower = ''package_name'' \<or> colLower = ''packagename''
      \<or> colLower = ''name'' \<or> colLower = ''package'')"

definition isVersionColumn :: "string \<Rightarrow> bool" where
  "isVersionColumn colLower =
     (colLower = ''package_versions'' \<or> colLower = ''package_version''
      \<or> colLower = ''packageversion'' \<or> colLower = ''version''
      \<or> colLower = ''versions'')"

fun findColumns ::
  "(string \<Rightarrow> string) \<Rightarrow> string list \<Rightarrow> nat \<Rightarrow> nat option \<times> nat option
     \<Rightarrow> nat option \<times> nat option" where
  "findColumns unicodeLower [] i idx = idx"
| "findColumns unicodeLower (col # cols) i (nameIdx, versionIdx) =
     (let colLower = toLower unicodeLower (trimSpace col) in
      findColumns unicodeLower cols (Suc i)
        (if isNameColumn colLower then Some i else nameIdx,
         if isVersionColumn colLower then Some i else versionIdx))"

definition columnIndices :: "(string \<Rightarrow> string) \<Rightarrow> string list \<Rightarrow> nat \<times> nat" where
  "columnIndices unicodeLower header =
     (case findColumns unicodeLower header 0 (None, None) of
        (nameIdx, versionIdx) \<Rightarrow>
          ((case nameIdx of None \<Rightarrow> 0 | Some i \<Rightarrow> i),
           (case versionIdx of None \<Rightarrow> 1 | Some i \<Rightarrow> i)))"

partial_function (option) readRecords ::
  "nat \<Rightarrow> csv_reader \<Rightarrow> nat \<Rightarrow> string list list \<Rightarrow> string list list option" where
  "readRecords fieldsPerRecord reader i allRecords =
     (case reader i of
        ReadEOF \<Rightarrow> Some allRecords
      | ReadError err \<Rightarrow> readRecords fieldsPerRecord reader (Suc i) allRecords
      | ReadRecord record \<Rightarrow>
          readRecords fieldsPerRecord reader (Suc i)
            (if length record = fieldsPerRecord then allRecords @ [record]
             else allRecords))"

definition addVersion :: "string \<Rightarrow> string \<Rightarrow> VulnDB \<Rightarrow> string \<Rightarrow> VulnDB" where
  "addVersion packageName versionField db version =
     Add db \<lparr>PackageName = packageName, PackageVersion = version,
             OriginalVersion = versionField\<rparr>"

definition processRecord :: "nat \<Rightarrow> nat \<Rightarrow> VulnDB \<Rightarrow> string list \<Rightarrow> VulnDB" where
  "processRecord nameIdx versionIdx db record =
     (if nameIdx \<ge> length record then db
      else (let packageName = trimSpace (record ! nameIdx) in
            if packageName = [] then db
            else (let versionField =
                        (if versionIdx < length record
                         then trimSpace (record ! versionIdx) else [])
                  in if versionField = [] then db
                     else foldl (addVersion packageName versionField) db
                            (parseVersionList versionField))))"

definition parseCSV :: "(string \<Rightarrow> string) \<Rightarrow> csv_reader \<Rightarrow> (string + VulnDB) option" where
  "parseCSV unicodeLower reader =
     (case reader 0 of
        ReadEOF \<Rightarrow> Some (Inl (''failed to read CSV header: '' @ ''EOF''))
      | ReadError err \<Rightarrow> Some (Inl (''failed to read CSV header: '' @ err))
      | ReadRecord header \<Rightarrow>
          if length header < 2
          then Some (Inl ''CSV must have at least 2 columns (package name and version)'')
          else (case columnIndices unicodeLower header of
                  (nameIdx, versionIdx) \<Rightarrow>
                    (case readRecords (length header) reader 1 [] of
                       None \<Rightarrow> None
                     | Some allRecords \<Rightarrow>
                         Some (Inr (foldl (processRecord nameIdx versionIdx) NewVulnDB
                                      allRecords)))))"

subsection \<open>Loading from several URLs\<close>

text \<open>
  \<open>http.Get\<close> is the network: the model takes it as a function from the URL to either
  the error of the request or the status code and the body of the response, the body
  given as the CSV reader over it.
\<close>

datatype http_result = GetError string | Response nat csv_reader

function showNat :: "nat \<Rightarrow> string" where
  "showNat n =
     (if n < 10 then [char_of (48 + n)]
      else showNat (n div 10) @ [char_of (48 + n mod 10)])"
  by pat_completeness auto
termination
  by (relation "measure id") auto

declare showNat.simps [simp del]

definition LoadFromURL ::
  "(string \<Rightarrow> string) \<Rightarrow> (string \<Rightarrow> http_result) \<Rightarrow> string
     \<Rightarrow> (string + VulnDB) option" where
  "LoadFromURL unicodeLower httpGet url =
     (case httpGet url of
        GetError err \<Rightarrow> Some (Inl (''failed to fetch vulnerability database: '' @ err))
      | Response statusCode body \<Rightarrow>
          if statusCode \<noteq> 200
          then Some (Inl (''failed to fetch vulnerability database: HTTP ''
                          @ showNat statusCode))
          else parseCSV unicodeLower body)"

fun joinStr :: "string list \<Rightarrow> string \<Rightarrow> string" where
  "joinStr [] sep = []"
| "joinStr [x] sep = x"
| "joinStr (x # y # ys) sep = x @ sep @ joinStr (y # ys) sep"

text \<open>
  The three variables of \<open>LoadFromMultipleURLs\<close> form \<open>loadState\<close>; \<open>loadOne\<close> is the
  body of its loop over the URLs and \<open>loadLoop\<close> the loop, which does not return
  when the load of one URL does not.  \<open>showNat\<close> prints a status code as \<open>%d\<close> does.
\<close>

record loadState =
  loadDB :: VulnDB
  loadErrors :: "string list"
  successCount :: nat

definition loadOne ::
  "(string \<Rightarrow> string) \<Rightarrow> (string \<Rightarrow> http_result) \<Rightarrow> range_order \<Rightarrow> loadState
     \<Rightarrow> string \<Rightarrow> loadState option" where
  "loadOne unicodeLower httpGet order st url =
     (case LoadFromURL unicodeLower httpGet url of
        None \<Rightarrow> None
      | Some (Inl err) \<Rightarrow> Some (st\<lparr>loadErrors := loadErrors st @ [url @ '': '' @ err]\<rparr>)
      | Some (Inr sourceDB) \<Rightarrow>
          Some (st\<lparr>loadDB := Merge order (loadDB st) (Some sourceDB),
                   successCount := successCount st + 1\<rparr>))"

fun loadLoop ::
  "(string \<Rightarrow> string) \<Rightarrow> (string \<Rightarrow> http_result) \<Rightarrow> range_order \<Rightarrow> loadState
     \<Rightarrow> string list \<Rightarrow> loadState option" where
  "loadLoop unicodeLower httpGet order st [] = Some st"
| "loadLoop unicodeLower httpGet order st (url # urls) =
     (case loadOne unicodeLower httpGet order st url of
        None \<Rightarrow> None
      | Some st' \<Rightarrow> loadLoop unicodeLower httpGet order st' urls)"

definition LoadFromMultipleURLs ::
  "(string \<Rightarrow> string) \<Rightarrow> (string \<Rightarrow> http_result) \<Rightarrow> range_order \<Rightarrow> string list
     \<Rightarrow> (string + VulnDB) option" where
  "LoadFromMultipleURLs unicodeLower httpGet order urls =
     (if length urls = 0 then Some (Inl ''no URLs provided'')
      else (case loadLoop unicodeLower httpGet order
                   \<lparr>loadDB = NewVulnDB, loadErrors = [], successCount = 0\<rparr> urls of
              None \<Rightarrow> None
            | Some st \<Rightarrow>
                if successCount st = 0
                then Some (Inl (''failed to load any IOC sources: ''
                                @ joinStr (loadErrors st) ''; ''))
                else Some (Inr (loadDB st))))"

section \<open>The JSON and YAML parsers (internal/scanner/parser.go)\<close>

text \<open>
  \<open>json.Unmarshal\<close> and \<open>yaml.Unmarshal\<close> are library code.  Each parser below takes
  its decoder as a parameter: a function from the content to either the message of
  the decoding error or the decoded document.  The documents keep the fields that the
  parsers read.  The decoded Go maps are association lists, in the order in which the
  \<open>range\<close> loop of the run visits them.
\<close>

record PackageJSON =
  Dependencies :: "(string \<times> string) list"
  DevDependencies :: "(string \<times> string) list"
  OptionalDependencies :: "(string \<times> string) list"
  PeerDependencies :: "(string \<times> string) list"

record PackageLockEntry =
  EntryVersion :: string
  EntryDev :: bool

datatype LegacyLockEntry =
  LegacyLockEntry (LegacyVersion: string) (LegacyDev: bool)
    (LegacyDependencies: "(string \<times> LegacyLockEntry) list")

record PackageLockJSON =
  LockPackages :: "(string \<times> PackageLockEntry) list"
  LockDependencies :: "(string \<times> LegacyLockEntry) list"

record PnpmLockEntry =
  PnpmDev :: bool

record PnpmLockYAML =
  PnpmPackages :: "(string \<times> PnpmLockEntry) list"

text \<open>
  \<open>directPackage\<close> is the record that each of the four loops of \<open>ParsePackageJSON\<close>
  appends.  The map \<open>seen\<close> and the slice \<open>packages\<close> of the lockfile parsers form
  the pair \<open>extraction\<close>; \<open>emitPackage\<close> is the step that \<open>ParsePackageLock\<close>,
  \<open>parseLegacyDeps\<close> and \<open>ParsePnpmLock\<close> share (skip a key already seen, else mark it
  and append the record), and \<open>lockPackage\<close> and \<open>pnpmPackage\<close> are the bodies of
  the loops over the package maps.
\<close>

definition cleanVersion :: "string \<Rightarrow> string" where
  "cleanVersion version0 =
     (let version =
            trimSpace (trimPrefix (trimPrefix (trimPrefix (trimPrefix (trimPrefix
              (trimPrefix (trimPrefix version0 ''^'') ''~'') ''>='') ''>'') ''<='')
              ''<'') ''='')
      in case strIndex version '' '' of
           Some idx \<Rightarrow> if idx > 0 then take idx version else version
         | None \<Rightarrow> version)"

definition directPackage :: "bool \<Rightarrow> string \<times> string \<Rightarrow> Package" where
  "directPackage dev nv =
     \<lparr>Name = fst nv, Version = cleanVersion (snd nv), IsDev = dev, Source = ''direct''\<rparr>"

definition ParsePackageJSON ::
  "(string \<Rightarrow> string + PackageJSON) \<Rightarrow> string \<Rightarrow> bool \<Rightarrow> parse_error + Package list" where
  "ParsePackageJSON unmarshal content includeDev =
     (case unmarshal content of
        Inl err \<Rightarrow> Inl (StructuralParseError (''failed to parse package.json: '' @ err))
      | Inr pkg \<Rightarrow>
          Inr (map (directPackage False) (Dependencies pkg)
               @ (if includeDev then map (directPackage True) (DevDependencies pkg) else [])
               @ map (directPackage False) (OptionalDependencies pkg)
               @ map (directPackage False) (PeerDependencies pkg)))"

definition extractPackageName :: "string \<Rightarrow> string" where
  "extractPackageName pkgPath =
     (let path = trimPrefix pkgPath ''node_modules/'';
          parts = splitStr path ''/node_modules/'';
          lastPart = last parts
      in if hasPrefix lastPart ''@'' \<and> length (splitN lastPart ''/'' 3) \<ge> 2
         then splitN lastPart ''/'' 3 ! 0 @ ''/'' @ splitN lastPart ''/'' 3 ! 1
         else splitN lastPart ''/'' 2 ! 0)"

type_synonym extraction = "string set \<times> Package list"

definition emitPackage :: "string \<Rightarrow> string \<Rightarrow> bool \<Rightarrow> extraction \<Rightarrow> extraction" where
  "emitPackage name version dev st =
     (let key = name @ ''@'' @ version in
      if key \<in> fst st then st
      else (insert key (fst st),
            snd st @ [\<lparr>Name = name, Version = version, IsDev = dev,
                       Source = ''transitive''\<rparr>]))"

definition lockPackage :: "bool \<Rightarrow> extraction \<Rightarrow> string \<times> PackageLockEntry \<Rightarrow> extraction" where
  "lockPackage includeDev st pe =
     (let pkgPath = fst pe; entry = snd pe in
      if pkgPath = [] \<or> pkgPath = ''.'' then st
      else if EntryDev entry \<and> \<not> includeDev then st
      else (let name = extractPackageName pkgPath in
            if name = [] then st
            else emitPackage name (EntryVersion entry) (EntryDev entry) st))"

fun parseLegacyDeps ::
  "(string \<times> LegacyLockEntry) list \<Rightarrow> string \<Rightarrow> bool \<Rightarrow> extraction \<Rightarrow> extraction" where
  "parseLegacyDeps [] prefix includeDev st = st"
| "parseLegacyDeps ((name, LegacyLockEntry version dev nested) # deps) prefix includeDev st =
     (if dev \<and> \<not> includeDev then parseLegacyDeps deps prefix includeDev st
      else if name @ ''@'' @ version \<in> fst st then parseLegacyDeps deps prefix includeDev st
      else parseLegacyDeps deps prefix includeDev
             (if length nested > 0
              then parseLegacyDeps nested (name @ ''/'') includeDev
                     (emitPackage name version dev st)
              else emitPackage name version dev st))"

definition ParsePackageLock ::
  "(string \<Rightarrow> string + PackageLockJSON) \<Rightarrow> string \<Rightarrow> bool \<Rightarrow> parse_error + Package list" where
  "ParsePackageLock unmarshal content includeDev =
     (case unmarshal content of
        Inl err \<Rightarrow> Inl (StructuralParseError (''failed to parse package-lock.json: '' @ err))
      | Inr lock \<Rightarrow>
          (let st1 = (if length (LockPackages lock) > 0
                      then foldl (lockPackage includeDev) ({}, []) (LockPackages lock)
                      else ({}, []));
               st2 = (if length (LockDependencies lock) > 0
                      then parseLegacyDeps (LockDependencies lock) [] includeDev st1
                      else st1)
           in Inr (snd st2)))"

definition pnpmPackage :: "bool \<Rightarrow> extraction \<Rightarrow> string \<times> PnpmLockEntry \<Rightarrow> extraction" where
  "pnpmPackage includeDev st ke =
     (let key = fst ke; entry = snd ke in
      if key = [] then st
      else if PnpmDev entry \<and> \<not> includeDev then st
      else (case parsePnpmPackageKey key of
              (name, version) \<Rightarrow>
                if name = [] \<or> version = [] then st
                else emitPackage name version (PnpmDev entry) st))"

definition ParsePnpmLock ::
  "(string \<Rightarrow> string + PnpmLockYAML) \<Rightarrow> string \<Rightarrow> bool \<Rightarrow> parse_error + Package list" where
  "ParsePnpmLock unmarshal content includeDev =
     (case unmarshal content of
        Inl err \<Rightarrow> Inl (StructuralParseError (''failed to parse pnpm-lock.yaml: '' @ err))
      | Inr lockFile \<Rightarrow>
          Inr (snd (foldl (pnpmPackage includeDev) ({}, []) (PnpmPackages lockFile))))"

section \<open>The scanner (internal/scanner/matcher.go)\<close>

text \<open>
  Modelled from the spec: the type \<open>github.PackageFile\<close> is declared in a file of
  package \<open>github\<close> that is not among the sources; the scanner and its tests read the
  three fields below.
\<close>

record PackageFile =
  RepoName :: string
  Path :: string
  Content :: string

record VulnerablePackage =
  VulnPackage :: Package
  VulnEntryOf :: VulnEntry
  FilePath :: string
  VulnRepoName :: string

record MaliciousScript =
  ScriptFilePath :: string
  ScriptRepoName :: string
  ScriptName :: string
  Command :: string
  Pattern :: string

record RepoScanResult =
  ResultRepoName :: string
  TotalPackages :: nat
  VulnerablePackages :: "VulnerablePackage list"
  MaliciousScripts :: "MaliciousScript list"
  FilesScanned :: nat

record decoders =
  unmarshalPackageJSON :: "string \<Rightarrow> string + PackageJSON"
  unmarshalPackageLock :: "string \<Rightarrow> string + PackageLockJSON"
  unmarshalScripts :: "string \<Rightarrow> (string \<times> string) list option"

record Scanner =
  db :: VulnDB
  includeDev :: bool

text \<open>\<open>path.Base\<close>: the last element of a slash-separated path.\<close>

definition pathBase :: "string \<Rightarrow> string" where
  "pathBase path =
     (if path = [] then ''.''
      else (let stripped = rev (dropWhile (\<lambda>c. c = CHR ''/'') (rev path));
                base = rev (takeWhile (\<lambda>c. c \<noteq> CHR ''/'') (rev stripped))
            in if base = [] then ''/'' else base))"

definition parseFile :: "decoders \<Rightarrow> Scanner \<Rightarrow> PackageFile \<Rightarrow> parse_error + Package list" where
  "parseFile dec s file =
     (let filename = pathBase (Path file) in
      if filename = ''package.json''
      then ParsePackageJSON (unmarshalPackageJSON dec) (Content file) (includeDev s)
      else if filename = ''package-lock.json''
      then ParsePackageLock (unmarshalPackageLock dec) (Content file) (includeDev s)
      else Inr [])"

definition MaliciousScriptPatterns :: "string list" where
  "MaliciousScriptPatterns = [''node bundle.js'', ''setup_bun.js'', ''bun_environment.js'']"

definition LifecycleScripts :: "string list" where
  "LifecycleScripts =
     [''preinstall'', ''install'', ''postinstall'', ''preuninstall'', ''uninstall'',
      ''postuninstall'', ''prepublish'', ''preprepare'', ''prepare'', ''postprepare'']"

definition scriptFindings :: "PackageFile \<Rightarrow> (string \<times> string) list \<Rightarrow> MaliciousScript list" where
  "scriptFindings file scripts =
     concat (map (\<lambda>scriptName.
        case map_of scripts scriptName of
          None \<Rightarrow> []
        | Some command \<Rightarrow>
            concat (map (\<lambda>pattern.
              if strContains command pattern
              then [\<lparr>ScriptFilePath = Path file, ScriptRepoName = RepoName file,
                      ScriptName = scriptName, Command = command, Pattern = pattern\<rparr>]
              else []) MaliciousScriptPatterns)) LifecycleScripts)"

definition CheckPackageScripts :: "decoders \<Rightarrow> PackageFile list \<Rightarrow> MaliciousScript list" where
  "CheckPackageScripts dec files =
     concat (map (\<lambda>file.
        if \<not> hasSuffix (Path file) ''package.json'' \<or> strContains (Path file) ''package-lock''
        then []
        else (case unmarshalScripts dec (Content file) of
                None \<Rightarrow> []
              | Some scripts \<Rightarrow> scriptFindings file scripts)) files)"

text \<open>
  \<open>scanPackage\<close> and \<open>scanFile\<close> are the bodies of the two nested loops of
  \<open>ScanFiles\<close>, over the packages of a file and over the files; \<open>scanState\<close> holds
  the map \<open>seen\<close> and the two fields of the result that the loops update.
  \<open>scriptFindings\<close> is the pair of inner loops of \<open>CheckPackageScripts\<close>.  The
  fields of \<open>RepoScanResult\<close> that \<open>ScanFiles\<close> never sets are left out.
\<close>

record scanState =
  scanSeen :: "string set"
  scanTotal :: nat
  scanVulnerable :: "VulnerablePackage list"

definition scanPackage :: "Scanner \<Rightarrow> PackageFile \<Rightarrow> scanState \<Rightarrow> Package \<Rightarrow> scanState" where
  "scanPackage s file st pkg =
     (let key = Name pkg @ ''@'' @ Version pkg;
          st1 = (if key \<notin> scanSeen st
                 then st\<lparr>scanSeen := insert key (scanSeen st), scanTotal := scanTotal st + 1\<rparr>
                 else st)
      in case Check (db s) (Name pkg) (Version pkg) of
           None \<Rightarrow> st1
         | Some vulnEntry \<Rightarrow>
             st1\<lparr>scanVulnerable := scanVulnerable st1 @
                   [\<lparr>VulnPackage = pkg, VulnEntryOf = vulnEntry, FilePath = Path file,
                     VulnRepoName = RepoName file\<rparr>]\<rparr>)"

definition scanFile :: "decoders \<Rightarrow> Scanner \<Rightarrow> scanState \<Rightarrow> PackageFile \<Rightarrow> scanState" where
  "scanFile dec s st file =
     (case parseFile dec s file of
        Inl err \<Rightarrow> st
      | Inr pkgs \<Rightarrow> foldl (scanPackage s file) st pkgs)"

definition ScanFiles :: "decoders \<Rightarrow> Scanner \<Rightarrow> PackageFile list \<Rightarrow> RepoScanResult" where
  "ScanFiles dec s files =
     (if length files = 0
      then \<lparr>ResultRepoName = [], TotalPackages = 0, VulnerablePackages = [],
            MaliciousScripts = [], FilesScanned = 0\<rparr>
      else (let st = foldl (scanFile dec s)
                       \<lparr>scanSeen = {}, scanTotal = 0, scanVulnerable = []\<rparr> files
            in \<lparr>ResultRepoName = RepoName (files ! 0), TotalPackages = scanTotal st,
                VulnerablePackages = scanVulnerable st,
                MaliciousScripts = CheckPackageScripts dec files,
                FilesScanned = length files\<rparr>))"

section \<open>The non-empty invariant of a package record\<close>

definition nonEmptyPackage :: "Package \<Rightarrow> bool" where
  "nonEmptyPackage p = (Name p \<noteq> [] \<and> Version p \<noteq> [])"

section \<open>The entries of a record\<close>

text \<open>
  The entries that \<open>processRecord\<close> passes to \<open>Add\<close> for one record, in order: none
  for a record that is skipped, otherwise one for each version of the version cell.
\<close>

definition recordEntries :: "nat \<Rightarrow> nat \<Rightarrow> string list \<Rightarrow> VulnEntry list" where
  "recordEntries nameIdx versionIdx record =
     (if nameIdx \<ge> length record then []
      else (let packageName = trimSpace (record ! nameIdx) in
            if packageName = [] then []
            else (let versionField =
                        (if versionIdx < length record
                         then trimSpace (record ! versionIdx) else [])
                  in if versionField = [] then []
                     else map (\<lambda>version. \<lparr>PackageName = packageName, PackageVersion = version,
                                           OriginalVersion = versionField\<rparr>)
                            (parseVersionList versionField))))"

section \<open>Sources that end\<close>

text \<open>
  \<open>readerOf reads\<close> is the reader that returns the listed results, an error (\<open>Inl\<close>)
  or a record (\<open>Inr\<close>), one per call, and \<open>io.EOF\<close> from then on.  \<open>keptRecords\<close> gives
  the records that the reading loop keeps out of such a list: those that come without
  an error and have the header's number of fields.
\<close>

definition readerOf :: "(string + string list) list \<Rightarrow> csv_reader" where
  "readerOf reads i =
     (if i < length reads
      then (case reads ! i of Inl err \<Rightarrow> ReadError err | Inr record \<Rightarrow> ReadRecord record)
      else ReadEOF)"

definition keptRecords :: "nat \<Rightarrow> (string + string list) list \<Rightarrow> string list list" where
  "keptRecords fieldsPerRecord reads =
     concat (map (\<lambda>r. case r of
                        Inl err \<Rightarrow> []
                      | Inr record \<Rightarrow>
                          if length record = fieldsPerRecord then [record] else [])
                 reads)"

section \<open>Facts about the string primitives\<close>

lemma strIndex_char_first:
  "c \<notin> set s \<Longrightarrow> strIndex (s @ c # t) [c] = Some (length s)"
  by (induction s) auto

lemma strIndex_char_none_iff: "strIndex s [c] = None \<longleftrightarrow> c \<notin> set s"
  by (induction s) auto

lemma strIndex_char_Some:
  "strIndex s [c] = Some i \<Longrightarrow> i < length s \<and> s ! i = c \<and> c \<notin> set (take i s)"
proof (induction s arbitrary: i)
  case Nil
  then show ?case by simp
next
  case (Cons a s)
  show ?case
  proof (cases "a = c")
    case True
    with Cons.prems show ?thesis by simp
  next
    case False
    with Cons.prems obtain j where j: "strIndex s [c] = Some j" "i = Suc j"
      by auto
    from Cons.IH[OF j(1)] False j(2) show ?thesis by simp
  qed
qed

lemma splitN_2:
  "splitN s sep 2 =
     (case strIndex s sep of None \<Rightarrow> [s] | Some i \<Rightarrow> [take i s, drop (i + length sep) s])"
  by (simp add: numeral_2_eq_2 split: option.splits)

lemma splitN_3:
  "splitN s sep 3 =
     (case strIndex s sep of
        None \<Rightarrow> [s]
      | Some i \<Rightarrow> take i s # splitN (drop (i + length sep) s) sep 2)"
  by (simp add: numeral_3_eq_3 numeral_2_eq_2 split: option.splits)

section \<open>The pnpm key parser\<close>

lemma strip_plain:
  "CHR ''('' \<notin> set v \<Longrightarrow> CHR ''_'' \<notin> set v \<Longrightarrow> stripPnpmPeerDepSuffix v = v"
  by (simp add: stripPnpmPeerDepSuffix_def strIndex_char_none_iff[THEN iffD2])

lemma strip_paren:
  assumes "v \<noteq> []" "CHR ''('' \<notin> set v" "CHR ''_'' \<notin> set v"
  shows "stripPnpmPeerDepSuffix (v @ CHR ''('' # d) = v"
  using assms
  by (simp add: stripPnpmPeerDepSuffix_def strIndex_char_first
      strIndex_char_none_iff[THEN iffD2])

lemma scoped_parts:
  assumes "CHR ''@'' \<notin> set s"
  shows "splitN (CHR ''@'' # s @ CHR ''@'' # r) ''@'' 3 = [[], s, r]"
  using assms by (simp add: splitN_3 splitN_2 strIndex_char_first)

text \<open>
  C4.  A scoped pnpm key is split at the \<open>@\<close> that follows the scope/name pair, not
  at the leading \<open>@\<close> of the scope, with or without the leading slash, and a
  parenthesised peer decoration is cut from the version: for a scope/name pair \<open>s\<close>
  (no \<open>@\<close> inside) and a bare version \<open>v\<close>, the keys \<open>/@s@v(d\<close> and \<open>@s@v\<close> both
  give the name \<open>@s\<close> and the version \<open>v\<close>.  The two keys of the claim,
  \<open>/@scope/pkg@1.2.3(peer@4.0.0)\<close> and \<open>@scope/pkg@1.2.3\<close>, are the instance that
  follows the theorem.
\<close>

theorem pnpm_scoped_key:
  assumes "CHR ''@'' \<notin> set s" "v \<noteq> []" "CHR ''('' \<notin> set v" "CHR ''_'' \<notin> set v"
  shows "parsePnpmPackageKey (''/@'' @ s @ ''@'' @ v @ ''('' @ d) = (''@'' @ s, v)
       \<and> parsePnpmPackageKey (''@'' @ s @ ''@'' @ v) = (''@'' @ s, v)"
proof -
  have a: "parsePnpmPackageKey (''/@'' @ s @ ''@'' @ v @ ''('' @ d) = (''@'' @ s, v)"
    using assms
    by (simp add: parsePnpmPackageKey_def trimPrefix_def scoped_parts strip_paren)
  have b: "parsePnpmPackageKey (''@'' @ s @ ''@'' @ v) = (''@'' @ s, v)"
    using assms
    by (simp add: parsePnpmPackageKey_def trimPrefix_def scoped_parts strip_plain)
  from a b show ?thesis by simp
qed

theorem pnpm_scoped_key_witness:
  "CHR ''@'' \<notin> set ''scope/pkg'' \<and> ''1.2.3'' \<noteq> [] \<and> CHR ''('' \<notin> set ''1.2.3''
   \<and> CHR ''_'' \<notin> set ''1.2.3''
   \<and> parsePnpmPackageKey ''/@scope/pkg@1.2.3(peer@4.0.0)'' = (''@scope/pkg'', ''1.2.3'')
   \<and> parsePnpmPackageKey ''@scope/pkg@1.2.3'' = (''@scope/pkg'', ''1.2.3'')"
  using pnpm_scoped_key [of "''scope/pkg''" "''1.2.3''" "''peer@4.0.0)''"]
  by simp

lemma strIndex_char_iff:
  "strIndex s [c] = Some i \<longleftrightarrow> i < length s \<and> s ! i = c \<and> c \<notin> set (take i s)"
proof
  assume "strIndex s [c] = Some i"
  then show "i < length s \<and> s ! i = c \<and> c \<notin> set (take i s)"
    by (rule strIndex_char_Some)
next
  assume a: "i < length s \<and> s ! i = c \<and> c \<notin> set (take i s)"
  then have "s = take i s @ c # drop (Suc i) s"
    using id_take_nth_drop[of i s] by auto
  then have "strIndex s [c] = strIndex (take i s @ c # drop (Suc i) s) [c]"
    by simp
  also have "\<dots> = Some (length (take i s))"
    using a by (intro strIndex_char_first) simp
  finally show "strIndex s [c] = Some i"
    using a by simp
qed

lemma strIndex_take:
  assumes "strIndex (take j v) [c] = Some k"
  shows "strIndex v [c] = Some k"
proof -
  from assms have k: "k < length (take j v) \<and> take j v ! k = c \<and> c \<notin> set (take k (take j v))"
    by (rule strIndex_char_Some)
  then have kj: "k < j" "k < length v" by simp_all
  then have m: "min k j = k" by simp
  from k kj have "v ! k = c" by simp
  moreover have "take k (take j v) = take k v" using m by simp
  with k have "c \<notin> set (take k v)" by metis
  ultimately show ?thesis using kj by (simp add: strIndex_char_iff)
qed

lemma strContains_char: "strContains s [c] \<longleftrightarrow> c \<in> set s"
  by (simp add: strContains_def strIndex_char_none_iff)

lemma underscore_rule:
  "(case strIndex w ''_'' of
      Some idx \<Rightarrow> if idx > 0 \<and> strContains (drop (idx + 1) w) ''@'' then take idx w else w
    | None \<Rightarrow> w) = w"
  if "\<And>k. strIndex w ''_'' = Some k \<Longrightarrow> CHR ''@'' \<notin> set (drop (Suc k) w)"
  using that by (auto simp: strContains_char split: option.splits)

text \<open>
  C5 (as amended).  The stripper first cuts a parenthesised suffix (from the first
  \<open>(\<close>, unless it is the first character) and then looks at the first underscore
  of what is left.  When no \<open>@\<close> follows the first underscore of the version (or
  there is no underscore), the underscore is no boundary: the result is the version
  with only the parenthesised suffix cut, and it is the version itself when there is
  no parenthesis, as for \<open>1.0.0_alpha\<close>.  In a version without parenthesis whose
  first underscore is not the first character and is followed somewhere by an \<open>@\<close>,
  the suffix from that underscore on is removed, as for \<open>1.0.0_peer@2.0.0\<close>.
\<close>

theorem strip_underscore_boundary:
  "(\<not> (\<exists>i. strIndex v ''_'' = Some i \<and> CHR ''@'' \<in> set (drop (Suc i) v)) \<longrightarrow>
      stripPnpmPeerDepSuffix v =
        (case strIndex v ''('' of Some j \<Rightarrow> if 0 < j then take j v else v | None \<Rightarrow> v))
   \<and> (CHR ''('' \<notin> set v \<longrightarrow>
        \<not> (\<exists>i. strIndex v ''_'' = Some i \<and> CHR ''@'' \<in> set (drop (Suc i) v)) \<longrightarrow>
        stripPnpmPeerDepSuffix v = v)
   \<and> (CHR ''('' \<notin> set v \<longrightarrow>
        (\<forall>i. strIndex v ''_'' = Some i \<and> 0 < i \<and> CHR ''@'' \<in> set (drop (Suc i) v) \<longrightarrow>
             stripPnpmPeerDepSuffix v = take i v))"
proof -
  let ?w = "case strIndex v ''('' of Some j \<Rightarrow> if 0 < j then take j v else v | None \<Rightarrow> v"
  have first: "stripPnpmPeerDepSuffix v = ?w"
    if no: "\<not> (\<exists>i. strIndex v ''_'' = Some i \<and> CHR ''@'' \<in> set (drop (Suc i) v))"
  proof -
    have w: "\<exists>j. ?w = take j v"
      by (cases "strIndex v ''(''") (auto intro: exI[of _ "length v"])
    then obtain j where j: "?w = take j v" ..
    have "CHR ''@'' \<notin> set (drop (Suc k) ?w)" if k: "strIndex ?w ''_'' = Some k" for k
    proof -
      from k j have "strIndex v ''_'' = Some k"
        by (auto intro: strIndex_take)
      with no have "CHR ''@'' \<notin> set (drop (Suc k) v)" by blast
      moreover have "set (drop (Suc k) (take j v)) \<subseteq> set (drop (Suc k) v)"
        by (metis drop_take set_take_subset)
      ultimately show ?thesis using j by auto
    qed
    from underscore_rule[OF this] show ?thesis
      by (simp add: stripPnpmPeerDepSuffix_def Let_def)
  qed
  have plain: "?w = v" if "CHR ''('' \<notin> set v"
    using that by (simp add: strIndex_char_none_iff[THEN iffD2])
  have cut: "stripPnpmPeerDepSuffix v = take i v"
    if "CHR ''('' \<notin> set v" "strIndex v ''_'' = Some i" "0 < i" "CHR ''@'' \<in> set (drop (Suc i) v)"
    for i
    using that
    by (simp add: stripPnpmPeerDepSuffix_def strIndex_char_none_iff[THEN iffD2] strContains_char)
  from first plain cut show ?thesis by auto
qed

theorem strip_underscore_boundary_witness:
  "CHR ''('' \<notin> set ''1.0.0_alpha''
   \<and> \<not> (\<exists>i. strIndex ''1.0.0_alpha'' ''_'' = Some i \<and> CHR ''@'' \<in> set (drop (Suc i) ''1.0.0_alpha''))
   \<and> stripPnpmPeerDepSuffix ''1.0.0_alpha'' = ''1.0.0_alpha''
   \<and> CHR ''('' \<notin> set ''1.0.0_peer@2.0.0''
   \<and> strIndex ''1.0.0_peer@2.0.0'' ''_'' = Some 5
   \<and> CHR ''@'' \<in> set (drop (Suc 5) ''1.0.0_peer@2.0.0'')
   \<and> stripPnpmPeerDepSuffix ''1.0.0_peer@2.0.0'' = ''1.0.0''"
  using strip_underscore_boundary [of "''1.0.0_alpha''"]
    strip_underscore_boundary [of "''1.0.0_peer@2.0.0''"]
  by simp

text \<open>
  The claim as stated, that the string is left unchanged whenever no \<open>@\<close> follows
  the underscore, fails on a version that also has a parenthesis: the parenthesised
  suffix is cut.
\<close>

theorem strip_changes_without_at_counterexample:
  "strIndex ''1.0.0_alpha(x)'' ''_'' = Some 5
   \<and> CHR ''@'' \<notin> set (drop (Suc 5) ''1.0.0_alpha(x)'')
   \<and> stripPnpmPeerDepSuffix ''1.0.0_alpha(x)'' = ''1.0.0_alpha''
   \<and> stripPnpmPeerDepSuffix ''1.0.0_alpha(x)'' \<noteq> ''1.0.0_alpha(x)''"
  by (simp add: stripPnpmPeerDepSuffix_def strContains_def)

section \<open>The yarn.lock scanner\<close>

lemma saveName_fields [simp]:
  "currentNames (saveName ver st n) = currentNames st"
  "currentVer (saveName ver st n) = currentVer st"
  "inEntry (saveName ver st n) = inEntry st"
  by (simp_all add: saveName_def Let_def)

lemma saveName_packages:
  assumes "\<forall>p\<in>set (packages st). nonEmptyPackage p \<and> \<not> IsDev p"
    and "n \<noteq> []" and "ver \<noteq> []"
  shows "\<forall>p\<in>set (packages (saveName ver st n)). nonEmptyPackage p \<and> \<not> IsDev p"
  using assms by (simp add: saveName_def Let_def nonEmptyPackage_def)

lemma foldl_saveName_packages:
  assumes "\<forall>p\<in>set (packages st). nonEmptyPackage p \<and> \<not> IsDev p"
    and "\<forall>n\<in>set names. n \<noteq> []" and "ver \<noteq> []"
  shows "\<forall>p\<in>set (packages (foldl (saveName ver) st names)). nonEmptyPackage p \<and> \<not> IsDev p"
  using assms
proof (induction names arbitrary: st)
  case Nil
  then show ?case by simp
next
  case (Cons n names)
  have n: "n \<noteq> []" and rest: "\<forall>n\<in>set names. n \<noteq> []"
    using Cons.prems(2) by simp_all
  have "\<forall>p\<in>set (packages (saveName ver st n)). nonEmptyPackage p \<and> \<not> IsDev p"
    using Cons.prems(1) n Cons.prems(3) by (rule saveName_packages)
  then have "\<forall>p\<in>set (packages (foldl (saveName ver) (saveName ver st n) names)).
               nonEmptyPackage p \<and> \<not> IsDev p"
    using rest Cons.prems(3) by (rule Cons.IH)
  then show ?case by simp
qed

lemma foldl_saveName_names [simp]:
  "currentNames (foldl (saveName ver) st names) = currentNames st"
  by (induction names arbitrary: st) simp_all

lemma saveCurrentEntry_names [simp]:
  "currentNames (saveCurrentEntry st) = currentNames st"
  by (simp add: saveCurrentEntry_def)

lemma saveCurrentEntry_packages:
  assumes "\<forall>p\<in>set (packages st). nonEmptyPackage p \<and> \<not> IsDev p"
    and "\<forall>n\<in>set (currentNames st). n \<noteq> []"
  shows "\<forall>p\<in>set (packages (saveCurrentEntry st)). nonEmptyPackage p \<and> \<not> IsDev p"
proof (cases "\<not> inEntry st \<or> currentVer st = [] \<or> length (currentNames st) = 0")
  case True
  with assms(1) show ?thesis by (simp add: saveCurrentEntry_def)
next
  case False
  then have ver: "currentVer st \<noteq> []" by simp
  from False have "saveCurrentEntry st = foldl (saveName (currentVer st)) st (currentNames st)"
    by (simp add: saveCurrentEntry_def)
  moreover have "\<forall>p\<in>set (packages (foldl (saveName (currentVer st)) st (currentNames st))).
                   nonEmptyPackage p \<and> \<not> IsDev p"
    using assms ver by (rule foldl_saveName_packages)
  ultimately show ?thesis by simp
qed

lemma addYarnName_nonempty:
  "\<forall>n\<in>set names. n \<noteq> [] \<Longrightarrow> \<forall>n\<in>set (addYarnName names nr). n \<noteq> []"
  by (simp add: addYarnName_def Let_def)

lemma foldl_addYarnName_nonempty:
  "\<forall>n\<in>set names. n \<noteq> [] \<Longrightarrow> \<forall>n\<in>set (foldl addYarnName names nrs). n \<noteq> []"
proof (induction nrs arbitrary: names)
  case Nil
  then show ?case by simp
next
  case (Cons nr nrs)
  have "\<forall>n\<in>set (addYarnName names nr). n \<noteq> []"
    using Cons.prems by (rule addYarnName_nonempty)
  then have "\<forall>n\<in>set (foldl addYarnName (addYarnName names nr) nrs). n \<noteq> []"
    by (rule Cons.IH)
  then show ?case by simp
qed

lemma parseYarnDeclarationLine_nonempty:
  "\<forall>n\<in>set (parseYarnDeclarationLine trimmed). n \<noteq> []"
  unfolding parseYarnDeclarationLine_def
  by (rule foldl_addYarnName_nonempty) simp

text \<open>The invariant of the line scanner: what has been emitted is well-formed.\<close>

lemma yarnLine_invariant:
  assumes "\<forall>p\<in>set (packages st). nonEmptyPackage p \<and> \<not> IsDev p"
    and "\<forall>n\<in>set (currentNames st). n \<noteq> []"
  shows "(\<forall>p\<in>set (packages (yarnLine st line)). nonEmptyPackage p \<and> \<not> IsDev p)
       \<and> (\<forall>n\<in>set (currentNames (yarnLine st line)). n \<noteq> [])"
proof -
  have saved: "\<forall>p\<in>set (packages (saveCurrentEntry st)). nonEmptyPackage p \<and> \<not> IsDev p"
    using assms by (rule saveCurrentEntry_packages)
  show ?thesis
    using assms saved parseYarnDeclarationLine_nonempty
    by (simp add: yarnLine_def Let_def)
qed

lemma foldl_yarnLine_invariant:
  assumes "\<forall>p\<in>set (packages st). nonEmptyPackage p \<and> \<not> IsDev p"
    and "\<forall>n\<in>set (currentNames st). n \<noteq> []"
  shows "(\<forall>p\<in>set (packages (foldl yarnLine st lines)). nonEmptyPackage p \<and> \<not> IsDev p)
       \<and> (\<forall>n\<in>set (currentNames (foldl yarnLine st lines)). n \<noteq> [])"
  using assms
proof (induction lines arbitrary: st)
  case Nil
  then show ?case by simp
next
  case (Cons line lines)
  have step: "(\<forall>p\<in>set (packages (yarnLine st line)). nonEmptyPackage p \<and> \<not> IsDev p)
       \<and> (\<forall>n\<in>set (currentNames (yarnLine st line)). n \<noteq> [])"
    using Cons.prems by (rule yarnLine_invariant)
  have "(\<forall>p\<in>set (packages (foldl yarnLine (yarnLine st line) lines)).
            nonEmptyPackage p \<and> \<not> IsDev p)
       \<and> (\<forall>n\<in>set (currentNames (foldl yarnLine (yarnLine st line) lines)). n \<noteq> [])"
    using step[THEN conjunct1] step[THEN conjunct2] by (rule Cons.IH)
  then show ?case by simp
qed

lemma ParseYarnLock_packages:
  assumes "ParseYarnLock content dev = Inr pkgs"
  shows "\<forall>p\<in>set pkgs. nonEmptyPackage p \<and> \<not> IsDev p"
proof -
  let ?st = "foldl yarnLine newYarnLockParser (splitStr content [CHR 0x0A])"
  have inv: "(\<forall>p\<in>set (packages ?st). nonEmptyPackage p \<and> \<not> IsDev p)
           \<and> (\<forall>n\<in>set (currentNames ?st). n \<noteq> [])"
    by (rule foldl_yarnLine_invariant) (simp_all add: newYarnLockParser_def)
  have "\<forall>p\<in>set (packages (saveCurrentEntry ?st)). nonEmptyPackage p \<and> \<not> IsDev p"
    using inv[THEN conjunct1] inv[THEN conjunct2] by (rule saveCurrentEntry_packages)
  moreover from assms have "pkgs = packages (saveCurrentEntry ?st)"
    by (simp add: ParseYarnLock_def split: if_splits)
  ultimately show ?thesis by simp
qed

text \<open>
  C10.  \<open>ParseYarnLock\<close> does not look at the development opt-in: it returns the same
  result for both values of the flag, and no record it returns is marked as
  development-only.
\<close>

theorem yarn_ignores_dev_flag:
  "ParseYarnLock content True = ParseYarnLock content False
   \<and> (\<forall>dev pkgs. ParseYarnLock content dev = Inr pkgs \<longrightarrow> (\<forall>p\<in>set pkgs. \<not> IsDev p))"
proof -
  have "ParseYarnLock content True = ParseYarnLock content False"
    by (simp add: ParseYarnLock_def)
  moreover have "\<forall>p\<in>set pkgs. \<not> IsDev p" if "ParseYarnLock content dev = Inr pkgs" for dev pkgs
    using ParseYarnLock_packages[OF that] by simp
  ultimately show ?thesis by blast
qed

theorem yarn_ignores_dev_flag_witness:
  "ParseYarnLock (''a@^1:'' @ [CHR 0x0A] @ '' version 1'') True =
     Inr [\<lparr>Name = ''a'', Version = ''1'', IsDev = False, Source = ''transitive''\<rparr>]
   \<and> ParseYarnLock (''a@^1:'' @ [CHR 0x0A] @ '' version 1'') False =
     Inr [\<lparr>Name = ''a'', Version = ''1'', IsDev = False, Source = ''transitive''\<rparr>]
   \<and> \<not> IsDev \<lparr>Name = ''a'', Version = ''1'', IsDev = False, Source = ''transitive''\<rparr>"
proof -
  have run: "ParseYarnLock (''a@^1:'' @ [CHR 0x0A] @ '' version 1'') True =
     Inr [\<lparr>Name = ''a'', Version = ''1'', IsDev = False, Source = ''transitive''\<rparr>]"
    by code_simp
  show ?thesis
    using yarn_ignores_dev_flag [of "''a@^1:'' @ [CHR 0x0A] @ '' version 1''"] run
    by simp
qed

lemma hasBerryStyleNpmPrefix_iff:
  "hasBerryStyleNpmPrefix t \<longleftrightarrow>
     (\<exists>i. strIndex t ''@npm:'' = Some i \<and> i + 5 < length t \<and> isBerryVersionRangeStart (t ! (i + 5)))"
proof (cases "strIndex t ''@npm:''")
  case None
  then show ?thesis by (simp add: hasBerryStyleNpmPrefix_def)
next
  case (Some i)
  show ?thesis
  proof (cases "i + 5 < length t")
    case True
    then have "drop (i + 5) t = t ! (i + 5) # drop (Suc (i + 5)) t"
      by (rule Cons_nth_drop_Suc[symmetric])
    with Some True show ?thesis by (simp add: hasBerryStyleNpmPrefix_def)
  next
    case False
    then have "drop (i + 5) t = []" by simp
    with Some False show ?thesis by (simp add: hasBerryStyleNpmPrefix_def)
  qed
qed

text \<open>
  C6 (as amended).  \<open>ParseYarnLock\<close> fails with \<open>UnsupportedFormatError\<close>, and so
  returns no package record, exactly when the content contains \<open>__metadata:\<close>
  anywhere, or some line that is neither empty nor a comment ends (after trimming) in
  a colon and has a version-range character (a digit or one of \<open>^ ~ > < =\<close>)
  right after the first \<open>@npm:\<close> of the line.  Every declaration line is such a
  line ending in a colon; only the first \<open>@npm:\<close> of a line is looked at.
\<close>

theorem yarn_berry_rejected:
  "ParseYarnLock content dev = Inl UnsupportedFormatError \<longleftrightarrow>
     strContains content ''__metadata:''
     \<or> (\<exists>line\<in>set (splitStr content [CHR 0x0A]). \<exists>i.
           \<not> skippedLine (trimSpace line) \<and> hasSuffix (trimSpace line) '':''
           \<and> strIndex (trimSpace line) ''@npm:'' = Some i
           \<and> i + 5 < length (trimSpace line)
           \<and> isBerryVersionRangeStart (trimSpace line ! (i + 5)))"
proof -
  have "ParseYarnLock content dev = Inl UnsupportedFormatError \<longleftrightarrow> isYarnBerryFormat content"
    by (simp add: ParseYarnLock_def)
  also have "\<dots> \<longleftrightarrow> strContains content ''__metadata:''
      \<or> (\<exists>line\<in>set (splitStr content [CHR 0x0A]). berryLine line)"
    by (simp add: isYarnBerryFormat_def list_ex_iff)
  also have "\<dots> \<longleftrightarrow> strContains content ''__metadata:''
     \<or> (\<exists>line\<in>set (splitStr content [CHR 0x0A]). \<exists>i.
           \<not> skippedLine (trimSpace line) \<and> hasSuffix (trimSpace line) '':''
           \<and> strIndex (trimSpace line) ''@npm:'' = Some i
           \<and> i + 5 < length (trimSpace line)
           \<and> isBerryVersionRangeStart (trimSpace line ! (i + 5)))"
    by (simp add: berryLine_def Let_def hasBerryStyleNpmPrefix_iff)
  finally show ?thesis .
qed

lemma berry_sample_line:
  "splitStr (''p@npm:^1:'' @ [CHR 0x0A] @ '' version 1'') [CHR 0x0A] = [''p@npm:^1:'', '' version 1'']
   \<and> trimSpace ''p@npm:^1:'' = ''p@npm:^1:''
   \<and> strIndex ''p@npm:^1:'' ''@npm:'' = Some 1"
  by code_simp

theorem yarn_berry_rejected_witness:
  "ParseYarnLock (''p@npm:^1:'' @ [CHR 0x0A] @ '' version 1'') False = Inl UnsupportedFormatError
   \<and> ''p@npm:^1:'' \<in> set (splitStr (''p@npm:^1:'' @ [CHR 0x0A] @ '' version 1'') [CHR 0x0A])
   \<and> \<not> skippedLine (trimSpace ''p@npm:^1:'') \<and> hasSuffix (trimSpace ''p@npm:^1:'') '':''
   \<and> strIndex (trimSpace ''p@npm:^1:'') ''@npm:'' = Some 1
   \<and> 1 + 5 < length (trimSpace ''p@npm:^1:'')
   \<and> isBerryVersionRangeStart (trimSpace ''p@npm:^1:'' ! (1 + 5))"
proof -
  have line: "''p@npm:^1:'' \<in> set (splitStr (''p@npm:^1:'' @ [CHR 0x0A] @ '' version 1'') [CHR 0x0A])"
    using berry_sample_line by simp
  have props: "\<not> skippedLine (trimSpace ''p@npm:^1:'') \<and> hasSuffix (trimSpace ''p@npm:^1:'') '':''
   \<and> strIndex (trimSpace ''p@npm:^1:'') ''@npm:'' = Some 1
   \<and> 1 + 5 < length (trimSpace ''p@npm:^1:'')
   \<and> isBerryVersionRangeStart (trimSpace ''p@npm:^1:'' ! (1 + 5))"
    using berry_sample_line
    by (simp add: skippedLine_def hasSuffix_def isBerryVersionRangeStart_def)
  from line props
  have "ParseYarnLock (''p@npm:^1:'' @ [CHR 0x0A] @ '' version 1'') False = Inl UnsupportedFormatError"
    unfolding yarn_berry_rejected [of "''p@npm:^1:'' @ [CHR 0x0A] @ '' version 1''" False]
    by blast
  with line props show ?thesis by blast
qed

text \<open>
  The claim as stated, for any declaration line that carries \<open>@npm:\<close> followed by a
  version-range character, fails when that is not the first \<open>@npm:\<close> of the line:
  the lockfile below is parsed and two records are returned.
\<close>

theorem yarn_second_alias_counterexample:
  "isYarnDeclarationLine ''a@npm:b@1, c@npm:^1:'' (trimSpace ''a@npm:b@1, c@npm:^1:'')
   \<and> strContains ''a@npm:b@1, c@npm:^1:'' ''@npm:^''
   \<and> isBerryVersionRangeStart CHR ''^''
   \<and> ParseYarnLock (''a@npm:b@1, c@npm:^1:'' @ [CHR 0x0A] @ '' version 1'') False =
       Inr [\<lparr>Name = ''a'', Version = ''1'', IsDev = False, Source = ''transitive''\<rparr>,
            \<lparr>Name = ''c'', Version = ''1'', IsDev = False, Source = ''transitive''\<rparr>]"
  by code_simp

section \<open>The JSON and YAML parsers\<close>

lemma emitPackage_nonEmpty:
  assumes "\<forall>p\<in>set (snd st). nonEmptyPackage p" "name \<noteq> []" "version \<noteq> []"
  shows "\<forall>p\<in>set (snd (emitPackage name version dev st)). nonEmptyPackage p"
  using assms by (simp add: emitPackage_def Let_def nonEmptyPackage_def)

lemma emitPackage_named:
  assumes "\<forall>p\<in>set (snd st). Name p \<noteq> []" "name \<noteq> []"
  shows "\<forall>p\<in>set (snd (emitPackage name version dev st)). Name p \<noteq> []"
  using assms by (simp add: emitPackage_def Let_def)

lemma pnpmPackage_nonEmpty:
  assumes "\<forall>p\<in>set (snd st). nonEmptyPackage p"
  shows "\<forall>p\<in>set (snd (pnpmPackage incl st ke)). nonEmptyPackage p"
proof (cases "parsePnpmPackageKey (fst ke)")
  case (Pair name version)
  show ?thesis
  proof (cases "fst ke = [] \<or> (PnpmDev (snd ke) \<and> \<not> incl) \<or> name = [] \<or> version = []")
    case True
    with assms Pair show ?thesis by (auto simp: pnpmPackage_def Let_def)
  next
    case False
    then have "pnpmPackage incl st ke = emitPackage name version (PnpmDev (snd ke)) st"
      using Pair by (auto simp: pnpmPackage_def Let_def)
    moreover have "\<forall>p\<in>set (snd (emitPackage name version (PnpmDev (snd ke)) st)). nonEmptyPackage p"
      using assms False by (intro emitPackage_nonEmpty) simp_all
    ultimately show ?thesis by simp
  qed
qed

lemma foldl_pnpmPackage_nonEmpty:
  assumes "\<forall>p\<in>set (snd st). nonEmptyPackage p"
  shows "\<forall>p\<in>set (snd (foldl (pnpmPackage incl) st kes)). nonEmptyPackage p"
  using assms
proof (induction kes arbitrary: st)
  case Nil
  then show ?case by simp
next
  case (Cons ke kes)
  have "\<forall>p\<in>set (snd (pnpmPackage incl st ke)). nonEmptyPackage p"
    using Cons.prems by (rule pnpmPackage_nonEmpty)
  then have "\<forall>p\<in>set (snd (foldl (pnpmPackage incl) (pnpmPackage incl st ke) kes)).
               nonEmptyPackage p"
    by (rule Cons.IH)
  then show ?case by simp
qed

lemma lockPackage_named:
  assumes "\<forall>p\<in>set (snd st). Name p \<noteq> []"
  shows "\<forall>p\<in>set (snd (lockPackage incl st pe)). Name p \<noteq> []"
proof (cases "fst pe = [] \<or> fst pe = ''.'' \<or> (EntryDev (snd pe) \<and> \<not> incl)
              \<or> extractPackageName (fst pe) = []")
  case True
  with assms show ?thesis by (auto simp: lockPackage_def Let_def)
next
  case False
  then have "lockPackage incl st pe =
      emitPackage (extractPackageName (fst pe)) (EntryVersion (snd pe)) (EntryDev (snd pe)) st"
    by (auto simp: lockPackage_def Let_def)
  moreover have "\<forall>p\<in>set (snd (emitPackage (extractPackageName (fst pe))
      (EntryVersion (snd pe)) (EntryDev (snd pe)) st)). Name p \<noteq> []"
    using assms False by (intro emitPackage_named) simp_all
  ultimately show ?thesis by simp
qed

lemma foldl_lockPackage_named:
  assumes "\<forall>p\<in>set (snd st). Name p \<noteq> []"
  shows "\<forall>p\<in>set (snd (foldl (lockPackage incl) st pes)). Name p \<noteq> []"
  using assms
proof (induction pes arbitrary: st)
  case Nil
  then show ?case by simp
next
  case (Cons pe pes)
  have "\<forall>p\<in>set (snd (lockPackage incl st pe)). Name p \<noteq> []"
    using Cons.prems by (rule lockPackage_named)
  then have "\<forall>p\<in>set (snd (foldl (lockPackage incl) (lockPackage incl st pe) pes)).
               Name p \<noteq> []"
    by (rule Cons.IH)
  then show ?case by simp
qed

text \<open>
  The pnpm lockfile parser and the yarn.lock parser keep the non-empty invariant of a
  package record: each skips an entry that would give an empty name or an empty
  version.
\<close>

lemma pnpm_yarn_non_empty:
  "(\<forall>pkgs. ParsePnpmLock unmarshalPnpm content dev = Inr pkgs \<longrightarrow>
       (\<forall>p\<in>set pkgs. nonEmptyPackage p))
   \<and> (\<forall>pkgs. ParseYarnLock content dev = Inr pkgs \<longrightarrow> (\<forall>p\<in>set pkgs. nonEmptyPackage p))"
proof -
  have pnpm: "\<forall>p\<in>set pkgs. nonEmptyPackage p"
    if "ParsePnpmLock unmarshalPnpm content dev = Inr pkgs" for pkgs
  proof -
    have "\<forall>p\<in>set (snd (foldl (pnpmPackage dev) ({}, []) (PnpmPackages lockFile))).
            nonEmptyPackage p" for lockFile
      by (rule foldl_pnpmPackage_nonEmpty) simp
    with that show ?thesis
      by (auto simp: ParsePnpmLock_def split: sum.splits)
  qed
  have yarn: "\<forall>p\<in>set pkgs. nonEmptyPackage p"
    if "ParseYarnLock content dev = Inr pkgs" for pkgs
    using ParseYarnLock_packages[OF that] by simp
  from pnpm yarn show ?thesis by blast
qed

text \<open>
  The loop of \<open>ParsePackageLock\<close> over the packages map skips an entry whose path
  gives an empty name, so every record it takes from that map has a non-empty name.
  It does not look at the version.
\<close>

lemma lock_packages_named:
  "\<forall>p\<in>set (snd (foldl (lockPackage dev) ({}, []) pes)). Name p \<noteq> []"
  by (rule foldl_lockPackage_named) simp

text \<open>
  C7.  The code departs from the claim here.  \<open>ParsePackageLock\<close> checks the name of
  an entry of the packages map and not its version, and \<open>parseLegacyDeps\<close> and
  \<open>ParsePackageJSON\<close> check neither, while the pnpm and yarn.lock parsers drop a
  record with an empty name or version.  So a lockfile entry without a version, in
  the packages map or in the legacy dependencies map, and a dependency of the
  manifest written with an empty range, are each emitted as a record with an empty
  version.  The scan of such a \<open>package-lock.json\<close> counts the record among the
  packages of the repository; the lookup refuses it, so it is never a finding.
\<close>

theorem empty_version_emitted:
  "ParsePackageLock
      (\<lambda>c. Inr \<lparr>LockPackages = [(''node_modules/foo'', \<lparr>EntryVersion = [], EntryDev = False\<rparr>)],
                 LockDependencies = []\<rparr>) content dev
     = Inr [\<lparr>Name = ''foo'', Version = [], IsDev = False, Source = ''transitive''\<rparr>]
   \<and> ParsePackageLock
      (\<lambda>c. Inr \<lparr>LockPackages = [],
                 LockDependencies = [(''foo'', LegacyLockEntry [] False [])]\<rparr>) content dev
     = Inr [\<lparr>Name = ''foo'', Version = [], IsDev = False, Source = ''transitive''\<rparr>]
   \<and> ParsePackageJSON
      (\<lambda>c. Inr \<lparr>Dependencies = [(''foo'', [])], DevDependencies = [],
                 OptionalDependencies = [], PeerDependencies = []\<rparr>) content dev
     = Inr [\<lparr>Name = ''foo'', Version = [], IsDev = False, Source = ''direct''\<rparr>]
   \<and> nonEmptyPackage \<lparr>Name = ''foo'', Version = [], IsDev = False, Source = ''transitive''\<rparr>
       = False
   \<and> nonEmptyPackage \<lparr>Name = ''foo'', Version = [], IsDev = False, Source = ''direct''\<rparr>
       = False
   \<and> TotalPackages (ScanFiles
        \<lparr>unmarshalPackageJSON = \<lambda>c. Inl ''unexpected end of JSON input'',
         unmarshalPackageLock = \<lambda>c. Inr \<lparr>LockPackages =
             [(''node_modules/foo'', \<lparr>EntryVersion = [], EntryDev = False\<rparr>)],
           LockDependencies = []\<rparr>,
         unmarshalScripts = \<lambda>c. None\<rparr>
        \<lparr>db = vdb, includeDev = dev\<rparr>
        [\<lparr>RepoName = repo, Path = ''package-lock.json'', Content = content\<rparr>]) = 1
   \<and> VulnerablePackages (ScanFiles
        \<lparr>unmarshalPackageJSON = \<lambda>c. Inl ''unexpected end of JSON input'',
         unmarshalPackageLock = \<lambda>c. Inr \<lparr>LockPackages =
             [(''node_modules/foo'', \<lparr>EntryVersion = [], EntryDev = False\<rparr>)],
           LockDependencies = []\<rparr>,
         unmarshalScripts = \<lambda>c. None\<rparr>
        \<lparr>db = vdb, includeDev = dev\<rparr>
        [\<lparr>RepoName = repo, Path = ''package-lock.json'', Content = content\<rparr>]) = []"
proof -
  have name: "extractPackageName ''node_modules/foo'' = ''foo''"
    by code_simp
  have clean: "cleanVersion [] = []"
    by code_simp
  have base: "pathBase ''package-lock.json'' = ''package-lock.json''"
    by code_simp
  have lock: "ParsePackageLock
      (\<lambda>c. Inr \<lparr>LockPackages = [(''node_modules/foo'', \<lparr>EntryVersion = [], EntryDev = False\<rparr>)],
                 LockDependencies = []\<rparr>) content dev
     = Inr [\<lparr>Name = ''foo'', Version = [], IsDev = False, Source = ''transitive''\<rparr>]"
    using name by (simp add: ParsePackageLock_def lockPackage_def emitPackage_def)
  have legacy: "ParsePackageLock
      (\<lambda>c. Inr \<lparr>LockPackages = [],
                 LockDependencies = [(''foo'', LegacyLockEntry [] False [])]\<rparr>) content dev
     = Inr [\<lparr>Name = ''foo'', Version = [], IsDev = False, Source = ''transitive''\<rparr>]"
    by (simp add: ParsePackageLock_def emitPackage_def)
  have manifest: "ParsePackageJSON
      (\<lambda>c. Inr \<lparr>Dependencies = [(''foo'', [])], DevDependencies = [],
                 OptionalDependencies = [], PeerDependencies = []\<rparr>) content dev
     = Inr [\<lparr>Name = ''foo'', Version = [], IsDev = False, Source = ''direct''\<rparr>]"
    using clean by (simp add: ParsePackageJSON_def directPackage_def)
  have parsed: "parseFile
        \<lparr>unmarshalPackageJSON = \<lambda>c. Inl ''unexpected end of JSON input'',
         unmarshalPackageLock = \<lambda>c. Inr \<lparr>LockPackages =
             [(''node_modules/foo'', \<lparr>EntryVersion = [], EntryDev = False\<rparr>)],
           LockDependencies = []\<rparr>,
         unmarshalScripts = \<lambda>c. None\<rparr>
        \<lparr>db = vdb, includeDev = dev\<rparr>
        \<lparr>RepoName = repo, Path = ''package-lock.json'', Content = content\<rparr>
     = Inr [\<lparr>Name = ''foo'', Version = [], IsDev = False, Source = ''transitive''\<rparr>]"
    using base lock by (simp add: parseFile_def)
  have scan: "TotalPackages (ScanFiles
        \<lparr>unmarshalPackageJSON = \<lambda>c. Inl ''unexpected end of JSON input'',
         unmarshalPackageLock = \<lambda>c. Inr \<lparr>LockPackages =
             [(''node_modules/foo'', \<lparr>EntryVersion = [], EntryDev = False\<rparr>)],
           LockDependencies = []\<rparr>,
         unmarshalScripts = \<lambda>c. None\<rparr>
        \<lparr>db = vdb, includeDev = dev\<rparr>
        [\<lparr>RepoName = repo, Path = ''package-lock.json'', Content = content\<rparr>]) = 1
   \<and> VulnerablePackages (ScanFiles
        \<lparr>unmarshalPackageJSON = \<lambda>c. Inl ''unexpected end of JSON input'',
         unmarshalPackageLock = \<lambda>c. Inr \<lparr>LockPackages =
             [(''node_modules/foo'', \<lparr>EntryVersion = [], EntryDev = False\<rparr>)],
           LockDependencies = []\<rparr>,
         unmarshalScripts = \<lambda>c. None\<rparr>
        \<lparr>db = vdb, includeDev = dev\<rparr>
        [\<lparr>RepoName = repo, Path = ''package-lock.json'', Content = content\<rparr>]) = []"
    by (simp add: ScanFiles_def scanFile_def parsed scanPackage_def Check_def)
  from lock legacy manifest scan show ?thesis
    by (simp add: nonEmptyPackage_def)
qed

section \<open>The scanner\<close>

lemma yarn_lock_sample:
  "ParseYarnLock (''a@^1:'' @ [CHR 0x0A] @ '' version 1'') True =
     Inr [\<lparr>Name = ''a'', Version = ''1'', IsDev = False, Source = ''transitive''\<rparr>]
   \<and> Check (Add NewVulnDB \<lparr>PackageName = ''a'', PackageVersion = ''1'', OriginalVersion = ''1''\<rparr>)
        ''a'' ''1''
     = Some \<lparr>PackageName = ''a'', PackageVersion = ''1'', OriginalVersion = ''1''\<rparr>"
  by code_simp

lemma parseFile_other_names:
  "parseFile dec s \<lparr>RepoName = repo, Path = ''npm-shrinkwrap.json'', Content = c\<rparr> = Inr []"
  "parseFile dec s \<lparr>RepoName = repo, Path = ''pnpm-lock.yaml'', Content = c\<rparr> = Inr []"
  "parseFile dec s \<lparr>RepoName = repo, Path = ''yarn.lock'', Content = c\<rparr> = Inr []"
  by (simp_all add: parseFile_def pathBase_def)

text \<open>
  C8.  The code departs from the claim here.  \<open>parseFile\<close> dispatches the base names
  \<open>package.json\<close> and \<open>package-lock.json\<close> only.  For every other name, among them
  \<open>npm-shrinkwrap.json\<close>, \<open>pnpm-lock.yaml\<close> and \<open>yarn.lock\<close>, it returns no package and
  no error, whatever the content.  So a \<open>yarn.lock\<close> whose single package the
  database lists, and which \<open>ParseYarnLock\<close> extracts, contributes neither a finding
  nor a counted package to the scan.
\<close>

theorem parseFile_unrecognised_lockfiles:
  "parseFile dec s \<lparr>RepoName = repo, Path = ''npm-shrinkwrap.json'', Content = c\<rparr> = Inr []
   \<and> parseFile dec s \<lparr>RepoName = repo, Path = ''pnpm-lock.yaml'', Content = c\<rparr> = Inr []
   \<and> parseFile dec s \<lparr>RepoName = repo, Path = ''yarn.lock'', Content = c\<rparr> = Inr []
   \<and> ParseYarnLock (''a@^1:'' @ [CHR 0x0A] @ '' version 1'') True =
       Inr [\<lparr>Name = ''a'', Version = ''1'', IsDev = False, Source = ''transitive''\<rparr>]
   \<and> Check (Add NewVulnDB \<lparr>PackageName = ''a'', PackageVersion = ''1'', OriginalVersion = ''1''\<rparr>)
        ''a'' ''1''
       = Some \<lparr>PackageName = ''a'', PackageVersion = ''1'', OriginalVersion = ''1''\<rparr>
   \<and> VulnerablePackages (ScanFiles dec
        \<lparr>db = Add NewVulnDB \<lparr>PackageName = ''a'', PackageVersion = ''1'', OriginalVersion = ''1''\<rparr>,
         includeDev = True\<rparr>
        [\<lparr>RepoName = repo, Path = ''yarn.lock'',
          Content = ''a@^1:'' @ [CHR 0x0A] @ '' version 1''\<rparr>]) = []
   \<and> TotalPackages (ScanFiles dec
        \<lparr>db = Add NewVulnDB \<lparr>PackageName = ''a'', PackageVersion = ''1'', OriginalVersion = ''1''\<rparr>,
         includeDev = True\<rparr>
        [\<lparr>RepoName = repo, Path = ''yarn.lock'',
          Content = ''a@^1:'' @ [CHR 0x0A] @ '' version 1''\<rparr>]) = 0"
  using yarn_lock_sample
  by (simp add: parseFile_other_names ScanFiles_def scanFile_def)

section \<open>The indicator database\<close>

lemma totalEntries_Add [simp]: "totalEntries (Add vdb e) = totalEntries vdb + 1"
  by (simp add: Add_def Let_def split: option.splits)

lemma entries_Add:
  "entries (Add vdb e) =
     (case map_of (entries vdb) (entryKey e) of
        Some x \<Rightarrow> entries vdb
      | None \<Rightarrow> entries vdb @ [(entryKey e, e)])"
  by (simp add: Add_def Let_def split: option.splits)

lemma map_of_entries_Add:
  "map_of (entries (Add vdb e)) = [entryKey e \<mapsto> e] ++ map_of (entries vdb)"
proof (cases "map_of (entries vdb) (entryKey e)")
  case None
  then show ?thesis by (simp add: entries_Add)
next
  case (Some x)
  then have "[entryKey e \<mapsto> e] ++ map_of (entries vdb) = map_of (entries vdb)"
    by (auto simp: map_add_def split: option.splits)
  with Some show ?thesis by (simp add: entries_Add)
qed

lemma Add_keeps:
  "map_of (entries vdb) k = Some v \<Longrightarrow> map_of (entries (Add vdb e)) k = Some v"
  by (simp add: map_of_entries_Add map_add_def)

lemma Add_has_key: "map_of (entries (Add vdb e)) (entryKey e) \<noteq> None"
  by (simp add: map_of_entries_Add map_add_def split: option.splits)

lemma Add_present:
  "map_of (entries vdb) (entryKey e) \<noteq> None \<Longrightarrow> entries (Add vdb e) = entries vdb"
  by (auto simp: entries_Add)

lemma Add_distinct:
  assumes "distinct (map fst (entries vdb))"
  shows "distinct (map fst (entries (Add vdb e)))"
proof (cases "map_of (entries vdb) (entryKey e)")
  case None
  then have "entryKey e \<notin> fst ` set (entries vdb)"
    by (simp add: map_of_eq_None_iff)
  with assms None show ?thesis by (simp add: entries_Add)
next
  case (Some x)
  with assms show ?thesis by (simp add: entries_Add)
qed

lemma Add_keyed:
  assumes "\<forall>(k, x)\<in>set (entries vdb). k = entryKey x"
  shows "\<forall>(k, x)\<in>set (entries (Add vdb e)). k = entryKey x"
  using assms by (auto simp: entries_Add split: option.splits)

lemma foldl_Add_total [simp]:
  "totalEntries (foldl Add vdb es) = totalEntries vdb + length es"
  by (induction es arbitrary: vdb) simp_all

lemma foldl_Add_keeps:
  "map_of (entries vdb) k = Some v \<Longrightarrow> map_of (entries (foldl Add vdb es)) k = Some v"
  by (induction es arbitrary: vdb) (simp_all add: Add_keeps)

lemma foldl_Add_distinct:
  "distinct (map fst (entries vdb)) \<Longrightarrow> distinct (map fst (entries (foldl Add vdb es)))"
  by (induction es arbitrary: vdb) (simp_all add: Add_distinct)

lemma foldl_Add_keyed:
  "\<forall>(k, x)\<in>set (entries vdb). k = entryKey x \<Longrightarrow>
   \<forall>(k, x)\<in>set (entries (foldl Add vdb es)). k = entryKey x"
proof (induction es arbitrary: vdb)
  case Nil
  then show ?case by simp
next
  case (Cons e es)
  have "\<forall>(k, x)\<in>set (entries (Add vdb e)). k = entryKey x"
    using Cons.prems by (rule Add_keyed)
  then have "\<forall>(k, x)\<in>set (entries (foldl Add (Add vdb e) es)). k = entryKey x"
    by (rule Cons.IH)
  then show ?case by simp
qed

lemma foldl_Add_has_keys:
  "e \<in> set es \<Longrightarrow> map_of (entries (foldl Add vdb es)) (entryKey e) \<noteq> None"
proof (induction es arbitrary: vdb)
  case Nil
  then show ?case by simp
next
  case (Cons a es)
  show ?case
  proof (cases "e = a")
    case True
    obtain v where "map_of (entries (Add vdb a)) (entryKey a) = Some v"
      using Add_has_key[of vdb a] by auto
    then have "map_of (entries (foldl Add (Add vdb a) es)) (entryKey a) = Some v"
      by (rule foldl_Add_keeps)
    with True show ?thesis by simp
  next
    case False
    with Cons.prems have "e \<in> set es" by simp
    then show ?thesis using Cons.IH by simp
  qed
qed

lemma foldl_Add_present:
  "\<forall>e\<in>set es. map_of (entries vdb) (entryKey e) \<noteq> None \<Longrightarrow>
   entries (foldl Add vdb es) = entries vdb"
proof (induction es arbitrary: vdb)
  case Nil
  then show ?case by simp
next
  case (Cons a es)
  then have same: "entries (Add vdb a) = entries vdb"
    by (simp add: Add_present)
  then have "\<forall>e\<in>set es. map_of (entries (Add vdb a)) (entryKey e) \<noteq> None"
    using Cons.prems by simp
  then have "entries (foldl Add (Add vdb a) es) = entries (Add vdb a)"
    by (rule Cons.IH)
  with same show ?case by simp
qed

text \<open>What one record contributes: the entries that \<open>processRecord\<close> adds, in order.\<close>

lemma processRecord_as_Adds:
  "processRecord ni vi vdb r = foldl Add vdb (recordEntries ni vi r)"
  by (simp add: processRecord_def recordEntries_def Let_def foldl_map addVersion_def[abs_def])

section \<open>Loading a CSV source\<close>

lemma foldl_processRecord_as_Adds:
  "foldl (processRecord ni vi) vdb rs = foldl Add vdb (concat (map (recordEntries ni vi) rs))"
  by (induction rs arbitrary: vdb) (simp_all add: processRecord_as_Adds)

lemma keptRecords_append [simp]:
  "keptRecords n (xs @ ys) = keptRecords n xs @ keptRecords n ys"
  by (simp add: keptRecords_def)

lemma keptRecords_Cons_Inr [simp]:
  "keptRecords n (Inr r # ys) = (if length r = n then r # keptRecords n ys else keptRecords n ys)"
  by (simp add: keptRecords_def)

lemma keptRecords_Cons_Inl [simp]: "keptRecords n (Inl e # ys) = keptRecords n ys"
  by (simp add: keptRecords_def)

lemma keptRecords_Nil [simp]: "keptRecords n [] = []"
  by (simp add: keptRecords_def)

text \<open>On a source that ends, the reading loop returns, with the records it keeps.\<close>

lemma readRecords_readerOf:
  "readRecords n (readerOf reads) i acc = Some (acc @ keptRecords n (drop i reads))"
proof (induction "length reads - i" arbitrary: i acc)
  case 0
  then have "readerOf reads i = ReadEOF" by (simp add: readerOf_def)
  with 0 show ?case by (subst readRecords.simps) simp
next
  case (Suc m)
  then have i: "i < length reads" and m: "m = length reads - Suc i" by simp_all
  from i have d: "drop i reads = reads ! i # drop (Suc i) reads"
    by (rule Cons_nth_drop_Suc[symmetric])
  show ?case
  proof (cases "reads ! i")
    case (Inl e)
    with i have "readerOf reads i = ReadError e" by (simp add: readerOf_def)
    then show ?thesis
      by (subst readRecords.simps) (simp add: Suc.hyps(1)[OF m] d Inl)
  next
    case (Inr r)
    with i have "readerOf reads i = ReadRecord r" by (simp add: readerOf_def)
    then show ?thesis
      by (subst readRecords.simps) (simp add: Suc.hyps(1)[OF m] d Inr)
  qed
qed

text \<open>On a reader that returns errors for ever, the reading loop does not return.\<close>

lemma readRecords_stuck:
  assumes "\<forall>j\<ge>i. \<exists>e. reader j = ReadError e"
  shows "readRecords n reader i acc = None"
proof (rule ccontr)
  assume "readRecords n reader i acc \<noteq> None"
  then obtain y where y: "readRecords n reader i acc = Some y" by auto
  have "\<not> (\<forall>j\<ge>i. \<exists>e. reader j = ReadError e)"
  proof (rule readRecords.raw_induct
      [where P = "\<lambda>n reader i acc y. \<not> (\<forall>j\<ge>i. \<exists>e. reader j = ReadError e)", OF _ y])
    fix f :: "nat \<Rightarrow> csv_reader \<Rightarrow> nat \<Rightarrow> string list list \<Rightarrow> string list list option"
    fix n' :: nat and rd :: csv_reader and k :: nat and acc' y' :: "string list list"
    assume ih: "\<And>n rd k acc y. f n rd k acc = Some y \<Longrightarrow>
                  \<not> (\<forall>j\<ge>k. \<exists>e. rd j = ReadError e)"
    assume body: "(case rd k of
        ReadEOF \<Rightarrow> Some acc'
      | ReadError err \<Rightarrow> f n' rd (Suc k) acc'
      | ReadRecord record \<Rightarrow>
          f n' rd (Suc k) (if length record = n' then acc' @ [record] else acc')) = Some y'"
    show "\<not> (\<forall>j\<ge>k. \<exists>e. rd j = ReadError e)"
    proof
      assume stuck: "\<forall>j\<ge>k. \<exists>e. rd j = ReadError e"
      then obtain e where "rd k = ReadError e" by auto
      with body have "f n' rd (Suc k) acc' = Some y'" by simp
      then have "\<not> (\<forall>j\<ge>Suc k. \<exists>e. rd j = ReadError e)" by (rule ih)
      with stuck show False by auto
    qed
  qed
  with assms show False by contradiction
qed

lemma parseCSV_header:
  assumes "2 \<le> length hdr" "columnIndices lower hdr = (ni, vi)"
  shows "parseCSV lower (readerOf (Inr hdr # reads)) =
           Some (Inr (foldl Add NewVulnDB
                  (concat (map (recordEntries ni vi) (keptRecords (length hdr) reads)))))"
proof -
  have "readerOf (Inr hdr # reads) 0 = ReadRecord hdr"
    by (simp add: readerOf_def)
  moreover have "readRecords (length hdr) (readerOf (Inr hdr # reads)) 1 [] =
      Some (keptRecords (length hdr) reads)"
    by (simp add: readRecords_readerOf)
  ultimately show ?thesis
    using assms by (simp add: parseCSV_def foldl_processRecord_as_Adds)
qed

lemma Check_key:
  "n \<noteq> [] \<Longrightarrow> v \<noteq> [] \<Longrightarrow> Check vdb n v = map_of (entries vdb) (n @ ''@'' @ v)"
  by (simp add: Check_def)

lemma or_spec_row:
  "recordEntries 0 1 [''pkg'', ''= 1.0.0 || = 2.0.0''] =
     [\<lparr>PackageName = ''pkg'', PackageVersion = ''1.0.0'', OriginalVersion = ''= 1.0.0 || = 2.0.0''\<rparr>,
      \<lparr>PackageName = ''pkg'', PackageVersion = ''2.0.0'', OriginalVersion = ''= 1.0.0 || = 2.0.0''\<rparr>]"
  by code_simp

text \<open>
  C2.  The row \<open>pkg,= 1.0.0 || = 2.0.0\<close> under a two-column header whose name and
  version columns are the first and the second: wherever the row stands in the
  source, the lookups of \<open>pkg\<close> at \<open>1.0.0\<close> and at \<open>2.0.0\<close> both succeed; every entry
  made from the row carries the whole cell \<open>= 1.0.0 || = 2.0.0\<close> as its original
  version; and when no earlier row precedes it, the two lookups return exactly those
  entries.
\<close>

theorem or_spec_row_lookups:
  assumes "length hdr = 2" "columnIndices lower hdr = (0, 1)"
  shows "\<exists>vdb. parseCSV lower
                 (readerOf (Inr hdr # before @ Inr [''pkg'', ''= 1.0.0 || = 2.0.0''] # after))
               = Some (Inr vdb)
     \<and> Check vdb ''pkg'' ''1.0.0'' \<noteq> None \<and> Check vdb ''pkg'' ''2.0.0'' \<noteq> None
     \<and> (before = [] \<longrightarrow>
          Check vdb ''pkg'' ''1.0.0'' =
            Some \<lparr>PackageName = ''pkg'', PackageVersion = ''1.0.0'',
                  OriginalVersion = ''= 1.0.0 || = 2.0.0''\<rparr>
        \<and> Check vdb ''pkg'' ''2.0.0'' =
            Some \<lparr>PackageName = ''pkg'', PackageVersion = ''2.0.0'',
                  OriginalVersion = ''= 1.0.0 || = 2.0.0''\<rparr>)
     \<and> (\<forall>e\<in>set (recordEntries 0 1 [''pkg'', ''= 1.0.0 || = 2.0.0'']).
           OriginalVersion e = ''= 1.0.0 || = 2.0.0'')"
proof -
  let ?row = "[''pkg'', ''= 1.0.0 || = 2.0.0'']"
  let ?e1 = "\<lparr>PackageName = ''pkg'', PackageVersion = ''1.0.0'',
                OriginalVersion = ''= 1.0.0 || = 2.0.0''\<rparr>"
  let ?e2 = "\<lparr>PackageName = ''pkg'', PackageVersion = ''2.0.0'',
                OriginalVersion = ''= 1.0.0 || = 2.0.0''\<rparr>"
  let ?pre = "concat (map (recordEntries 0 1) (keptRecords 2 before))"
  let ?post = "concat (map (recordEntries 0 1) (keptRecords 2 after))"
  let ?vdb = "foldl Add NewVulnDB (?pre @ [?e1, ?e2] @ ?post)"
  have load: "parseCSV lower (readerOf (Inr hdr # before @ Inr ?row # after)) = Some (Inr ?vdb)"
    using assms(1,2) or_spec_row by (simp add: parseCSV_header)
  have k1: "entryKey ?e1 = ''pkg@1.0.0''" and k2: "entryKey ?e2 = ''pkg@2.0.0''"
    by (simp_all add: entryKey_def)
  have "map_of (entries ?vdb) (entryKey ?e1) \<noteq> None"
    by (rule foldl_Add_has_keys) simp
  then have c1: "Check ?vdb ''pkg'' ''1.0.0'' \<noteq> None"
    by (simp add: Check_def k1)
  have "map_of (entries ?vdb) (entryKey ?e2) \<noteq> None"
    by (rule foldl_Add_has_keys) simp
  then have c2: "Check ?vdb ''pkg'' ''2.0.0'' \<noteq> None"
    by (simp add: Check_def k2)
  have first: "Check ?vdb ''pkg'' ''1.0.0'' = Some ?e1 \<and> Check ?vdb ''pkg'' ''2.0.0'' = Some ?e2"
    if "before = []"
  proof -
    let ?d2 = "Add (Add NewVulnDB ?e1) ?e2"
    have d2: "map_of (entries ?d2) ''pkg@1.0.0'' = Some ?e1"
             "map_of (entries ?d2) ''pkg@2.0.0'' = Some ?e2"
      by (simp_all add: map_of_entries_Add NewVulnDB_def k1 k2 map_add_def)
    have "?vdb = foldl Add ?d2 ?post"
      using that by simp
    with d2 have "map_of (entries ?vdb) ''pkg@1.0.0'' = Some ?e1"
      "map_of (entries ?vdb) ''pkg@2.0.0'' = Some ?e2"
      by (simp_all add: foldl_Add_keeps)
    then show ?thesis by (simp add: Check_def)
  qed
  have orig: "\<forall>e\<in>set (recordEntries 0 1 ?row). OriginalVersion e = ''= 1.0.0 || = 2.0.0''"
    using or_spec_row by simp
  from load c1 c2 first orig show ?thesis by blast
qed

text \<open>
  In the closed examples of this section the headers are ASCII, so \<open>strings.ToLower\<close>
  never consults the Unicode mapping; the identity stands for it.
\<close>

lemma wiz_header: "columnIndices (\<lambda>s. s) [''Package'', ''Version''] = (0, 1)"
  by code_simp

theorem or_spec_row_lookups_witness:
  "length [''Package'', ''Version''] = 2
   \<and> columnIndices (\<lambda>s. s) [''Package'', ''Version''] = (0, 1)
   \<and> (\<exists>vdb. parseCSV (\<lambda>s. s)
               (readerOf [Inr [''Package'', ''Version''], Inr [''pkg'', ''= 1.0.0 || = 2.0.0'']])
             = Some (Inr vdb)
        \<and> Check vdb ''pkg'' ''1.0.0'' =
            Some \<lparr>PackageName = ''pkg'', PackageVersion = ''1.0.0'',
                  OriginalVersion = ''= 1.0.0 || = 2.0.0''\<rparr>
        \<and> Check vdb ''pkg'' ''2.0.0'' =
            Some \<lparr>PackageName = ''pkg'', PackageVersion = ''2.0.0'',
                  OriginalVersion = ''= 1.0.0 || = 2.0.0''\<rparr>)"
  using or_spec_row_lookups [of "[''Package'', ''Version'']" "\<lambda>s. s" "[]" "[]"] wiz_header
  by auto

lemma Size_Add_present:
  "map_of (entries vdb) (entryKey e) \<noteq> None \<Longrightarrow> Size (Add vdb e) = Size vdb"
  by (simp add: Size_def Add_present)

lemma Size_Add_new:
  "map_of (entries vdb) (entryKey e) = None \<Longrightarrow> Size (Add vdb e) = Size vdb + 1"
  by (simp add: Size_def entries_Add)

lemma keyed_pairs_distinct:
  assumes "distinct (map fst xs)" "\<forall>(k, x)\<in>set xs. k = entryKey x"
  shows "distinct (map (\<lambda>kx. (PackageName (snd kx), PackageVersion (snd kx))) xs)"
proof -
  from assms(1) have d: "distinct xs" and inj: "inj_on fst (set xs)"
    by (simp_all add: distinct_map)
  have "inj_on (\<lambda>kx. (PackageName (snd kx), PackageVersion (snd kx))) (set xs)"
  proof (rule inj_onI)
    fix a b
    assume a: "a \<in> set xs" and b: "b \<in> set xs"
      and eq: "(PackageName (snd a), PackageVersion (snd a)) = (PackageName (snd b), PackageVersion (snd b))"
    from a b assms(2) have "fst a = entryKey (snd a)" "fst b = entryKey (snd b)"
      by auto
    with eq have "fst a = fst b" by (simp add: entryKey_def)
    with inj a b show "a = b" by (auto dest: inj_onD)
  qed
  with d show ?thesis by (simp add: distinct_map)
qed

lemma reload_entries:
  "entries (foldl Add (foldl Add vdb es) es) = entries (foldl Add vdb es)"
  by (rule foldl_Add_present) (simp add: foldl_Add_has_keys)

text \<open>
  C3 (as amended).  Whatever entries are added to a new database, the index never
  holds two entries under one key, nor two entries with the same name and version,
  and the counter of processed entries equals the number of \<open>Add\<close> calls: each \<open>Add\<close>
  raises it by one, also when the key is present already, in which case the number
  of unique entries stays as it was.  Processing a record a second time leaves the
  number of unique entries unchanged and raises the counter by what the first time
  raised it: one for every version the record expands to.  So a source holding the
  same row twice gives the same \<open>Size\<close> and twice the \<open>TotalEntries\<close> of the source
  holding it once; the counter grows by one per row only for rows with a single
  version.
\<close>

theorem add_dedup_and_count:
  "distinct (map fst (entries (foldl Add NewVulnDB es)))
   \<and> distinct (map (\<lambda>kx. (PackageName (snd kx), PackageVersion (snd kx)))
                 (entries (foldl Add NewVulnDB es)))
   \<and> TotalEntries (foldl Add NewVulnDB es) = length es
   \<and> TotalEntries (Add vdb e) = TotalEntries vdb + 1
   \<and> (map_of (entries vdb) (entryKey e) \<noteq> None \<longrightarrow> Size (Add vdb e) = Size vdb)
   \<and> Size (processRecord ni vi (processRecord ni vi vdb r) r) = Size (processRecord ni vi vdb r)
   \<and> TotalEntries (processRecord ni vi vdb r) = TotalEntries vdb + length (recordEntries ni vi r)
   \<and> TotalEntries (processRecord ni vi (processRecord ni vi vdb r) r) =
       TotalEntries vdb + 2 * length (recordEntries ni vi r)
   \<and> (2 \<le> length hdr \<and> length r = length hdr \<longrightarrow>
        (\<exists>d1 d2. parseCSV lower (readerOf [Inr hdr, Inr r]) = Some (Inr d1) \<and> parseCSV lower (readerOf [Inr hdr, Inr r, Inr r]) = Some (Inr d2)
           \<and> Size d2 = Size d1
           \<and> TotalEntries d1 = length (recordEntries (fst (columnIndices lower hdr)) (snd (columnIndices lower hdr)) r)
           \<and> TotalEntries d2 = 2 * TotalEntries d1))"
proof -
  have new: "distinct (map fst (entries NewVulnDB))" "\<forall>(k, x)\<in>set (entries NewVulnDB). k = entryKey x"
    by (simp_all add: NewVulnDB_def)
  have d1: "distinct (map fst (entries (foldl Add NewVulnDB es)))"
    using new(1) by (rule foldl_Add_distinct)
  have "\<forall>(k, x)\<in>set (entries (foldl Add NewVulnDB es)). k = entryKey x"
    using new(2) by (rule foldl_Add_keyed)
  with d1 have d2: "distinct (map (\<lambda>kx. (PackageName (snd kx), PackageVersion (snd kx)))
                 (entries (foldl Add NewVulnDB es)))"
    by (rule keyed_pairs_distinct)
  have t1: "TotalEntries (foldl Add NewVulnDB es) = length es"
    by (simp add: TotalEntries_def NewVulnDB_def)
  have t2: "TotalEntries (Add vdb e) = TotalEntries vdb + 1"
    by (simp add: TotalEntries_def)
  have s1: "map_of (entries vdb) (entryKey e) \<noteq> None \<longrightarrow> Size (Add vdb e) = Size vdb"
    by (simp add: Size_Add_present)
  have s2: "Size (processRecord ni vi (processRecord ni vi vdb r) r) = Size (processRecord ni vi vdb r)"
    by (simp add: Size_def processRecord_as_Adds reload_entries)
  have t3: "TotalEntries (processRecord ni vi vdb r) = TotalEntries vdb + length (recordEntries ni vi r)"
    by (simp add: TotalEntries_def processRecord_as_Adds)
  have t4: "TotalEntries (processRecord ni vi (processRecord ni vi vdb r) r) =
       TotalEntries vdb + 2 * length (recordEntries ni vi r)"
    by (simp add: TotalEntries_def processRecord_as_Adds)
  have csv: "\<exists>d1 d2. parseCSV lower (readerOf [Inr hdr, Inr r]) = Some (Inr d1) \<and> parseCSV lower (readerOf [Inr hdr, Inr r, Inr r]) = Some (Inr d2)
           \<and> Size d2 = Size d1
           \<and> TotalEntries d1 = length (recordEntries (fst (columnIndices lower hdr)) (snd (columnIndices lower hdr)) r)
           \<and> TotalEntries d2 = 2 * TotalEntries d1"
    if h: "2 \<le> length hdr" "length r = length hdr"
  proof -
    let ?ni = "fst (columnIndices lower hdr)" and ?vi = "snd (columnIndices lower hdr)"
    let ?es = "recordEntries ?ni ?vi r"
    have ci: "columnIndices lower hdr = (?ni, ?vi)" by simp
    have l1: "parseCSV lower (readerOf [Inr hdr, Inr r]) = Some (Inr (foldl Add NewVulnDB ?es))"
      using h by (simp add: parseCSV_header[OF h(1) ci])
    have l2: "parseCSV lower (readerOf [Inr hdr, Inr r, Inr r]) =
        Some (Inr (foldl Add (foldl Add NewVulnDB ?es) ?es))"
      using h by (simp add: parseCSV_header[OF h(1) ci])
    have "Size (foldl Add (foldl Add NewVulnDB ?es) ?es) = Size (foldl Add NewVulnDB ?es)"
      by (simp add: Size_def reload_entries)
    moreover have "TotalEntries (foldl Add NewVulnDB ?es) = length ?es"
      by (simp add: TotalEntries_def NewVulnDB_def)
    moreover have "TotalEntries (foldl Add (foldl Add NewVulnDB ?es) ?es) = 2 * length ?es"
      by (simp add: TotalEntries_def NewVulnDB_def)
    ultimately show ?thesis using l1 l2 by simp
  qed
  from d1 d2 t1 t2 s1 s2 t3 t4 csv show ?thesis by blast
qed


lemma single_version_row:
  "columnIndices (\<lambda>s. s) [''name'', ''version'', ''src''] = (0, 1)
   \<and> recordEntries 0 1 [''pkg'', ''1.0.0'', ''x''] =
       [\<lparr>PackageName = ''pkg'', PackageVersion = ''1.0.0'', OriginalVersion = ''1.0.0''\<rparr>]"
  by code_simp

theorem add_dedup_and_count_witness:
  "map_of (entries (Add NewVulnDB \<lparr>PackageName = ''pkg'', PackageVersion = ''1.0.0'', OriginalVersion = ''1.0.0''\<rparr>))
      (entryKey \<lparr>PackageName = ''pkg'', PackageVersion = ''1.0.0'', OriginalVersion = ''1.0.0''\<rparr>) \<noteq> None
   \<and> Size (Add (Add NewVulnDB \<lparr>PackageName = ''pkg'', PackageVersion = ''1.0.0'', OriginalVersion = ''1.0.0''\<rparr>)
               \<lparr>PackageName = ''pkg'', PackageVersion = ''1.0.0'', OriginalVersion = ''1.0.0''\<rparr>)
     = Size (Add NewVulnDB \<lparr>PackageName = ''pkg'', PackageVersion = ''1.0.0'', OriginalVersion = ''1.0.0''\<rparr>)
   \<and> 2 \<le> length [''name'', ''version'', ''src'']
   \<and> length [''pkg'', ''1.0.0'', ''x''] = length [''name'', ''version'', ''src'']
   \<and> (\<exists>d1 d2. parseCSV (\<lambda>s. s)
                  (readerOf [Inr [''name'', ''version'', ''src''], Inr [''pkg'', ''1.0.0'', ''x'']])
                = Some (Inr d1)
         \<and> parseCSV (\<lambda>s. s)
              (readerOf [Inr [''name'', ''version'', ''src''], Inr [''pkg'', ''1.0.0'', ''x''],
                         Inr [''pkg'', ''1.0.0'', ''x'']])
            = Some (Inr d2)
         \<and> Size d2 = Size d1 \<and> TotalEntries d1 = 1 \<and> TotalEntries d2 = 2)"
  using add_dedup_and_count [of "[]"
      "Add NewVulnDB \<lparr>PackageName = ''pkg'', PackageVersion = ''1.0.0'', OriginalVersion = ''1.0.0''\<rparr>"
      "\<lparr>PackageName = ''pkg'', PackageVersion = ''1.0.0'', OriginalVersion = ''1.0.0''\<rparr>"
      0 1 "[''pkg'', ''1.0.0'', ''x'']" "[''name'', ''version'', ''src'']" "\<lambda>s. s"]
    single_version_row Add_has_key [of NewVulnDB
      "\<lparr>PackageName = ''pkg'', PackageVersion = ''1.0.0'', OriginalVersion = ''1.0.0''\<rparr>"]
  by auto

text \<open>
  The claim as stated, that the counter grows by the number of rows loaded, fails for
  a row whose version cell lists three versions: loaded once the counter is 3, loaded
  twice it is 6, while two rows were loaded.
\<close>

theorem total_counts_versions_counterexample:
  "map_option (map_sum id TotalEntries)
     (parseCSV (\<lambda>s. s)
        (readerOf [Inr [''name'', ''version'', ''src''],
                   Inr [''pkg'', ''1.0.0, 1.0.1, 1.0.2'', ''x'']]))
     = Some (Inr 3)
   \<and> map_option (map_sum id TotalEntries)
     (parseCSV (\<lambda>s. s)
        (readerOf [Inr [''name'', ''version'', ''src''],
                   Inr [''pkg'', ''1.0.0, 1.0.1, 1.0.2'', ''x''],
                   Inr [''pkg'', ''1.0.0, 1.0.1, 1.0.2'', ''x'']]))
     = Some (Inr 6)
   \<and> map_option (map_sum id Size)
     (parseCSV (\<lambda>s. s)
        (readerOf [Inr [''name'', ''version'', ''src''],
                   Inr [''pkg'', ''1.0.0, 1.0.1, 1.0.2'', ''x''],
                   Inr [''pkg'', ''1.0.0, 1.0.1, 1.0.2'', ''x'']]))
     = Some (Inr 3)"
proof -
  have ci: "columnIndices (\<lambda>s. s) [''name'', ''version'', ''src''] = (0, 1)"
    by code_simp
  have once: "foldl Add NewVulnDB (concat (map (recordEntries 0 1)
        (keptRecords 3 [Inr [''pkg'', ''1.0.0, 1.0.1, 1.0.2'', ''x'']]))) =
      \<lparr>entries =
        [(''pkg@1.0.0'', \<lparr>PackageName = ''pkg'', PackageVersion = ''1.0.0'', OriginalVersion = ''1.0.0, 1.0.1, 1.0.2''\<rparr>),
         (''pkg@1.0.1'', \<lparr>PackageName = ''pkg'', PackageVersion = ''1.0.1'', OriginalVersion = ''1.0.0, 1.0.1, 1.0.2''\<rparr>),
         (''pkg@1.0.2'', \<lparr>PackageName = ''pkg'', PackageVersion = ''1.0.2'', OriginalVersion = ''1.0.0, 1.0.1, 1.0.2''\<rparr>)],
       byName =
        [(''pkg'', [\<lparr>PackageName = ''pkg'', PackageVersion = ''1.0.0'', OriginalVersion = ''1.0.0, 1.0.1, 1.0.2''\<rparr>,
                    \<lparr>PackageName = ''pkg'', PackageVersion = ''1.0.1'', OriginalVersion = ''1.0.0, 1.0.1, 1.0.2''\<rparr>,
                    \<lparr>PackageName = ''pkg'', PackageVersion = ''1.0.2'', OriginalVersion = ''1.0.0, 1.0.1, 1.0.2''\<rparr>])],
       totalEntries = 3\<rparr>"
    by code_simp
  have twice: "foldl Add NewVulnDB (concat (map (recordEntries 0 1)
        (keptRecords 3 [Inr [''pkg'', ''1.0.0, 1.0.1, 1.0.2'', ''x''],
                        Inr [''pkg'', ''1.0.0, 1.0.1, 1.0.2'', ''x'']]))) =
      \<lparr>entries =
        [(''pkg@1.0.0'', \<lparr>PackageName = ''pkg'', PackageVersion = ''1.0.0'', OriginalVersion = ''1.0.0, 1.0.1, 1.0.2''\<rparr>),
         (''pkg@1.0.1'', \<lparr>PackageName = ''pkg'', PackageVersion = ''1.0.1'', OriginalVersion = ''1.0.0, 1.0.1, 1.0.2''\<rparr>),
         (''pkg@1.0.2'', \<lparr>PackageName = ''pkg'', PackageVersion = ''1.0.2'', OriginalVersion = ''1.0.0, 1.0.1, 1.0.2''\<rparr>)],
       byName =
        [(''pkg'', [\<lparr>PackageName = ''pkg'', PackageVersion = ''1.0.0'', OriginalVersion = ''1.0.0, 1.0.1, 1.0.2''\<rparr>,
                    \<lparr>PackageName = ''pkg'', PackageVersion = ''1.0.1'', OriginalVersion = ''1.0.0, 1.0.1, 1.0.2''\<rparr>,
                    \<lparr>PackageName = ''pkg'', PackageVersion = ''1.0.2'', OriginalVersion = ''1.0.0, 1.0.1, 1.0.2''\<rparr>])],
       totalEntries = 6\<rparr>"
    by code_simp
  have len: "(2::nat) \<le> length [''name'', ''version'', ''src'']" by simp
  show ?thesis
    using once twice
    by (simp add: parseCSV_header[OF len ci] TotalEntries_def Size_def)
qed

text \<open>
  C1.  The code departs from the claim here.  The index is keyed by the string
  \<open>name@version\<close>, which does not determine the pair: in the database read from the
  rows \<open>pkg,"1.0.0, 1.0.1",x\<close> and \<open>a@b,c,x\<close> the lookups of \<open>pkg\<close> at \<open>1.0.0\<close> and
  \<open>1.0.1\<close> succeed and the one at \<open>1.0.2\<close> fails, as claimed, but the lookup of the
  name \<open>a\<close> at the version \<open>b@c\<close> succeeds too, with the entry of the package \<open>a@b\<close>,
  although no entry has the name \<open>a\<close>.
\<close>

theorem check_key_collision:
  "\<exists>vdb. parseCSV lower
           (readerOf [Inr [''name'', ''version'', ''src''], Inr [''pkg'', ''1.0.0, 1.0.1'', ''x''],
                      Inr [''a@b'', ''c'', ''x'']]) = Some (Inr vdb)
     \<and> map (\<lambda>kx. (PackageName (snd kx), PackageVersion (snd kx))) (entries vdb)
         = [(''pkg'', ''1.0.0''), (''pkg'', ''1.0.1''), (''a@b'', ''c'')]
     \<and> Check vdb ''pkg'' ''1.0.0'' \<noteq> None \<and> Check vdb ''pkg'' ''1.0.1'' \<noteq> None
     \<and> Check vdb ''pkg'' ''1.0.2'' = None
     \<and> Check vdb ''a'' ''b@c'' =
         Some \<lparr>PackageName = ''a@b'', PackageVersion = ''c'', OriginalVersion = ''c''\<rparr>"
proof -
  have ci: "columnIndices lower [''name'', ''version'', ''src''] = (0, 1)"
    by code_simp
  have len: "(2::nat) \<le> length [''name'', ''version'', ''src'']" by simp
  have run: "foldl Add NewVulnDB (concat (map (recordEntries 0 1)
        (keptRecords 3 [Inr [''pkg'', ''1.0.0, 1.0.1'', ''x''], Inr [''a@b'', ''c'', ''x'']]))) =
    \<lparr>entries =
          [(''pkg@1.0.0'', \<lparr>PackageName = ''pkg'', PackageVersion = ''1.0.0'', OriginalVersion = ''1.0.0, 1.0.1''\<rparr>),
           (''pkg@1.0.1'', \<lparr>PackageName = ''pkg'', PackageVersion = ''1.0.1'', OriginalVersion = ''1.0.0, 1.0.1''\<rparr>),
           (''a@b@c'', \<lparr>PackageName = ''a@b'', PackageVersion = ''c'', OriginalVersion = ''c''\<rparr>)],
         byName =
          [(''pkg'', [\<lparr>PackageName = ''pkg'', PackageVersion = ''1.0.0'', OriginalVersion = ''1.0.0, 1.0.1''\<rparr>,
                      \<lparr>PackageName = ''pkg'', PackageVersion = ''1.0.1'', OriginalVersion = ''1.0.0, 1.0.1''\<rparr>]),
           (''a@b'', [\<lparr>PackageName = ''a@b'', PackageVersion = ''c'', OriginalVersion = ''c''\<rparr>])],
         totalEntries = 3\<rparr>"
    by code_simp
  show ?thesis
    using run by (simp add: parseCSV_header[OF len ci] Check_def)
qed


section \<open>Loading from several sources\<close>

lemma parseCSV_keyed:
  assumes "parseCSV lower reader = Some (Inr d)"
  shows "\<forall>(k, x)\<in>set (entries d). k = entryKey x"
proof -
  have new: "\<forall>(k, x)\<in>set (entries NewVulnDB). k = entryKey x"
    by (simp add: NewVulnDB_def)
  have fold: "\<forall>(k, x)\<in>set (entries (foldl (processRecord ni vi) NewVulnDB rs)). k = entryKey x"
    for ni vi rs
    unfolding foldl_processRecord_as_Adds using new by (rule foldl_Add_keyed)
  from assms obtain ni vi rs where "d = foldl (processRecord ni vi) NewVulnDB rs"
    by (auto simp: parseCSV_def split: csv_read.splits if_splits prod.splits option.splits)
  with fold[of ni vi rs] show ?thesis by simp
qed

lemma LoadFromURL_keyed:
  assumes "LoadFromURL lower g u = Some (Inr d)"
  shows "\<forall>(k, x)\<in>set (entries d). k = entryKey x"
proof -
  from assms obtain body where "parseCSV lower body = Some (Inr d)"
    by (auto simp: LoadFromURL_def split: http_result.splits if_splits)
  then show ?thesis by (rule parseCSV_keyed)
qed

lemma Merge_keeps:
  "map_of (entries d) k = Some v \<Longrightarrow> map_of (entries (Merge order d other)) k = Some v"
  by (cases other) (simp_all add: Merge_def foldl_Add_keeps)

lemma Merge_has:
  assumes "\<forall>(k, x)\<in>set (entries sdb). k = entryKey x"
    and "set (order (entries sdb)) = set (entries sdb)"
    and "(k, e) \<in> set (entries sdb)"
  shows "map_of (entries (Merge order d (Some sdb))) k \<noteq> None"
proof -
  from assms(2,3) have "e \<in> set (map snd (order (entries sdb)))"
    by force
  then have "map_of (entries (foldl Add d (map snd (order (entries sdb))))) (entryKey e) \<noteq> None"
    by (rule foldl_Add_has_keys)
  moreover from assms(1,3) have "k = entryKey e" by auto
  ultimately show ?thesis by (simp add: Merge_def)
qed

lemma loadOne_failed:
  "LoadFromURL lower g u = Some (Inl err) \<Longrightarrow>
   loadOne lower g order st u = Some (st\<lparr>loadErrors := loadErrors st @ [u @ '': '' @ err]\<rparr>)"
  by (simp add: loadOne_def)

lemma loadOne_loaded:
  "LoadFromURL lower g u = Some (Inr sdb) \<Longrightarrow>
   loadOne lower g order st u =
     Some (st\<lparr>loadDB := Merge order (loadDB st) (Some sdb),
              successCount := successCount st + 1\<rparr>)"
  by (simp add: loadOne_def)

lemma loadOne_hangs:
  "LoadFromURL lower g u = None \<Longrightarrow> loadOne lower g order st u = None"
  by (simp add: loadOne_def)

lemma loadOne_keeps:
  assumes "loadOne lower g order st u = Some st'" "map_of (entries (loadDB st)) k = Some v"
  shows "map_of (entries (loadDB st')) k = Some v"
  using assms
  by (auto simp: loadOne_def Merge_keeps split: option.splits sum.splits)

lemma loadLoop_keeps:
  assumes "loadLoop lower g order st urls = Some st'" "map_of (entries (loadDB st)) k = Some v"
  shows "map_of (entries (loadDB st')) k = Some v"
  using assms
proof (induction urls arbitrary: st)
  case Nil
  then show ?case by simp
next
  case (Cons a urls)
  from Cons.prems(1) obtain st1 where st1: "loadOne lower g order st a = Some st1"
    and rest: "loadLoop lower g order st1 urls = Some st'"
    by (auto split: option.splits)
  from st1 Cons.prems(2) have "map_of (entries (loadDB st1)) k = Some v"
    by (rule loadOne_keeps)
  with rest show ?case by (rule Cons.IH)
qed

lemma loadLoop_merged:
  assumes "set (order (entries sdb)) = set (entries sdb)"
    and "u \<in> set urls" "LoadFromURL lower g u = Some (Inr sdb)" "(k, e) \<in> set (entries sdb)"
    and "loadLoop lower g order st urls = Some st'"
  shows "map_of (entries (loadDB st')) k \<noteq> None"
  using assms(2,5)
proof (induction urls arbitrary: st)
  case Nil
  then show ?case by simp
next
  case (Cons a urls)
  from Cons.prems(2) obtain st1 where st1: "loadOne lower g order st a = Some st1"
    and rest: "loadLoop lower g order st1 urls = Some st'"
    by (auto split: option.splits)
  show ?case
  proof (cases "a = u")
    case True
    have "map_of (entries (Merge order (loadDB st) (Some sdb))) k \<noteq> None"
      using LoadFromURL_keyed[OF assms(3)] assms(1,4) by (rule Merge_has)
    moreover from st1 True have "loadDB st1 = Merge order (loadDB st) (Some sdb)"
      by (auto simp: loadOne_loaded[OF assms(3)])
    ultimately obtain v where "map_of (entries (loadDB st1)) k = Some v"
      by auto
    with rest have "map_of (entries (loadDB st')) k = Some v"
      by (rule loadLoop_keeps)
    then show ?thesis by simp
  next
    case False
    with Cons.prems(1) have "u \<in> set urls" by simp
    then show ?thesis using rest by (rule Cons.IH)
  qed
qed

lemma loadLoop_count:
  assumes "loadLoop lower g order st urls = Some st'"
  shows "successCount st' =
     successCount st + length (filter (\<lambda>u. \<exists>d. LoadFromURL lower g u = Some (Inr d)) urls)"
  using assms
proof (induction urls arbitrary: st)
  case Nil
  then show ?case by simp
next
  case (Cons a urls)
  from Cons.prems obtain st1 where st1: "loadOne lower g order st a = Some st1"
    and rest: "loadLoop lower g order st1 urls = Some st'"
    by (auto split: option.splits)
  from st1 have "successCount st1 =
      successCount st + (if \<exists>d. LoadFromURL lower g a = Some (Inr d) then 1 else 0)"
    by (auto simp: loadOne_def split: option.splits sum.splits)
  with Cons.IH[OF rest] show ?case by simp
qed

lemma loadLoop_errors:
  assumes "\<forall>u\<in>set urls. LoadFromURL lower g u = Some (Inl (errs u))"
  shows "loadLoop lower g order st urls =
           Some (st\<lparr>loadErrors := loadErrors st @ map (\<lambda>u. u @ '': '' @ errs u) urls\<rparr>)"
  using assms
proof (induction urls arbitrary: st)
  case Nil
  then show ?case by simp
next
  case (Cons a urls)
  then have a: "LoadFromURL lower g a = Some (Inl (errs a))"
    and rest: "\<forall>u\<in>set urls. LoadFromURL lower g u = Some (Inl (errs u))"
    by simp_all
  show ?case
    by (simp add: loadOne_failed[OF a] Cons.IH[OF rest])
qed

lemma loadLoop_returns:
  assumes "\<forall>u\<in>set urls. LoadFromURL lower g u \<noteq> None"
  shows "\<exists>st'. loadLoop lower g order st urls = Some st'"
  using assms
proof (induction urls arbitrary: st)
  case Nil
  then show ?case by simp
next
  case (Cons a urls)
  then obtain r where "LoadFromURL lower g a = Some r" by auto
  then obtain st1 where "loadOne lower g order st a = Some st1"
    by (cases r) (auto simp: loadOne_def)
  moreover from Cons obtain st' where "loadLoop lower g order st1 urls = Some st'"
    by fastforce
  ultimately show ?case by simp
qed

lemma loadLoop_hangs:
  assumes "u \<in> set urls" "LoadFromURL lower g u = None"
  shows "loadLoop lower g order st urls = None"
  using assms(1)
proof (induction urls arbitrary: st)
  case Nil
  then show ?case by simp
next
  case (Cons a urls)
  show ?case
  proof (cases "a = u")
    case True
    then show ?thesis by (simp add: loadOne_hangs[OF assms(2)])
  next
    case False
    with Cons.prems have "u \<in> set urls" by simp
    then have "loadLoop lower g order st1 urls = None" for st1
      by (rule Cons.IH)
    then show ?thesis by (simp split: option.splits)
  qed
qed

lemma joinStr_contains:
  "x \<in> set xs \<Longrightarrow> \<exists>pre post. joinStr xs sep = pre @ x @ post"
proof (induction xs sep rule: joinStr.induct)
  case (1 sep)
  then show ?case by simp
next
  case (2 y sep)
  then have "joinStr [y] sep = [] @ x @ []" by simp
  then show ?case by blast
next
  case (3 y z zs sep)
  show ?case
  proof (cases "x = y")
    case True
    then have "joinStr (y # z # zs) sep = [] @ x @ (sep @ joinStr (z # zs) sep)" by simp
    then show ?thesis by blast
  next
    case False
    with 3 obtain pre post where "joinStr (z # zs) sep = pre @ x @ post" by auto
    then have "joinStr (y # z # zs) sep = (y @ sep @ pre) @ x @ post" by simp
    then show ?thesis by blast
  qed
qed

text \<open>
  When the load of every URL returns, the loader does what its documentation says:
  it returns; it returns an error exactly when every source failed; for a list that
  is not empty that error is the fixed prefix followed by the errors of the sources,
  each after its URL, joined by \<open>; \<close>, so that the error of every source stands in it;
  and every lookup that succeeds in a source that loaded succeeds in the result.
\<close>

lemma multi_source_load_when_all_return:
  assumes "\<forall>xs. mset (order xs) = mset xs"
    and "\<forall>u\<in>set urls. LoadFromURL lower g u \<noteq> None"
  shows "(\<exists>r. LoadFromMultipleURLs lower g order urls = Some r)
     \<and> ((\<exists>err. LoadFromMultipleURLs lower g order urls = Some (Inl err)) \<longleftrightarrow>
            (\<forall>u\<in>set urls. \<exists>e. LoadFromURL lower g u = Some (Inl e)))
     \<and> (urls \<noteq> [] \<and> (\<forall>u\<in>set urls. LoadFromURL lower g u = Some (Inl (errs u))) \<longrightarrow>
          LoadFromMultipleURLs lower g order urls =
            Some (Inl (''failed to load any IOC sources: ''
                       @ joinStr (map (\<lambda>u. u @ '': '' @ errs u) urls) ''; ''))
          \<and> (\<forall>u\<in>set urls. \<exists>pre post.
                LoadFromMultipleURLs lower g order urls =
                  Some (Inl (pre @ (u @ '': '' @ errs u) @ post))))
     \<and> (\<forall>vdb. LoadFromMultipleURLs lower g order urls = Some (Inr vdb) \<longrightarrow>
          (\<forall>u\<in>set urls. \<forall>sdb. LoadFromURL lower g u = Some (Inr sdb) \<longrightarrow>
             (\<forall>n v. Check sdb n v \<noteq> None \<longrightarrow> Check vdb n v \<noteq> None)))"
proof -
  let ?init = "\<lparr>loadDB = NewVulnDB, loadErrors = [], successCount = 0\<rparr>"
  from assms(2) obtain st where st: "loadLoop lower g order ?init urls = Some st"
    using loadLoop_returns by blast
  have res: "LoadFromMultipleURLs lower g order urls =
      (if urls = [] then Some (Inl ''no URLs provided'')
       else if successCount st = 0
            then Some (Inl (''failed to load any IOC sources: '' @ joinStr (loadErrors st) ''; ''))
            else Some (Inr (loadDB st)))"
    by (simp add: LoadFromMultipleURLs_def st)
  have "successCount st = length (filter (\<lambda>u. \<exists>d. LoadFromURL lower g u = Some (Inr d)) urls)"
    using loadLoop_count[OF st] by simp
  then have count: "successCount st = 0 \<longleftrightarrow> (\<forall>u\<in>set urls. \<exists>e. LoadFromURL lower g u = Some (Inl e))"
  proof -
    have "(\<exists>e. LoadFromURL lower g u = Some (Inl e)) \<longleftrightarrow> \<not> (\<exists>d. LoadFromURL lower g u = Some (Inr d))"
      if "u \<in> set urls" for u
    proof -
      from that assms(2) obtain r where "LoadFromURL lower g u = Some r" by auto
      then show ?thesis by (cases r) auto
    qed
    moreover assume "successCount st =
      length (filter (\<lambda>u. \<exists>d. LoadFromURL lower g u = Some (Inr d)) urls)"
    ultimately show ?thesis by (auto simp: filter_empty_conv)
  qed
  have returns: "\<exists>r. LoadFromMultipleURLs lower g order urls = Some r"
    by (simp add: res)
  have iff: "(\<exists>err. LoadFromMultipleURLs lower g order urls = Some (Inl err)) \<longleftrightarrow>
            (\<forall>u\<in>set urls. \<exists>e. LoadFromURL lower g u = Some (Inl e))"
  proof (cases "urls = []")
    case True
    then show ?thesis by (simp add: LoadFromMultipleURLs_def)
  next
    case False
    then show ?thesis using count by (simp add: res)
  qed
  have msg: "LoadFromMultipleURLs lower g order urls =
            Some (Inl (''failed to load any IOC sources: ''
                       @ joinStr (map (\<lambda>u. u @ '': '' @ errs u) urls) ''; ''))"
    if "urls \<noteq> []" "\<forall>u\<in>set urls. LoadFromURL lower g u = Some (Inl (errs u))"
  proof -
    from that(2) have "successCount st = 0"
      using count by auto
    moreover have "loadErrors st = map (\<lambda>u. u @ '': '' @ errs u) urls"
      using loadLoop_errors[OF that(2), of order ?init] st by simp
    ultimately show ?thesis using that(1) by (simp add: res)
  qed
  have part: "\<exists>pre post. LoadFromMultipleURLs lower g order urls =
                  Some (Inl (pre @ (u @ '': '' @ errs u) @ post))"
    if "urls \<noteq> []" "\<forall>u\<in>set urls. LoadFromURL lower g u = Some (Inl (errs u))" "u \<in> set urls"
    for u
  proof -
    from that(3) have "u @ '': '' @ errs u \<in> set (map (\<lambda>u. u @ '': '' @ errs u) urls)"
      by (rule imageI[of u "set urls" "\<lambda>u. u @ '': '' @ errs u", simplified set_map[symmetric]])
    then obtain pre post where
      "joinStr (map (\<lambda>u. u @ '': '' @ errs u) urls) ''; '' = pre @ (u @ '': '' @ errs u) @ post"
      using joinStr_contains by blast
    then have "LoadFromMultipleURLs lower g order urls =
        Some (Inl ((''failed to load any IOC sources: '' @ pre) @ (u @ '': '' @ errs u) @ post))"
      using msg[OF that(1,2)] by simp
    then show ?thesis by blast
  qed
  have merged: "Check vdb n v \<noteq> None"
    if "LoadFromMultipleURLs lower g order urls = Some (Inr vdb)" "u \<in> set urls"
       "LoadFromURL lower g u = Some (Inr sdb)" "Check sdb n v \<noteq> None"
    for vdb u sdb n v
  proof -
    from that(1) have vdb: "vdb = loadDB st"
      by (simp add: res split: if_splits)
    from that(4) have nv: "n \<noteq> []" "v \<noteq> []"
      by (auto simp: Check_def split: if_splits)
    with that(4) obtain e where "map_of (entries sdb) (n @ ''@'' @ v) = Some e"
      by (auto simp: Check_def)
    then have mem: "(n @ ''@'' @ v, e) \<in> set (entries sdb)"
      by (rule map_of_SomeD)
    have "set (order (entries sdb)) = set (entries sdb)"
      using assms(1) by (metis set_mset_mset)
    then have "map_of (entries (loadDB st)) (n @ ''@'' @ v) \<noteq> None"
      using that(2,3) mem st by (rule loadLoop_merged)
    with vdb nv show ?thesis by (simp add: Check_def)
  qed
  from returns iff msg part merged show ?thesis by blast
qed

text \<open>
  C9.  The code departs from the claim here.  The loop of \<open>parseCSV\<close> that reads the
  records goes on after every error but \<open>io.EOF\<close>.  When the body of a response
  breaks off after the header, so that every later read returns the error of the
  stream, the load of that source does not return, and neither does
  \<open>LoadFromMultipleURLs\<close>: the failure of the one source is not collected, no error is
  returned, and the entries of the source that did load are not returned either.
\<close>

theorem load_hangs_on_broken_body:
  "LoadFromURL lower
     (\<lambda>u. if u = ''a''
          then Response 200 (readerOf [Inr [''name'', ''version''], Inr [''pkg'', ''1.0.0'']])
          else Response 200 (\<lambda>i. if i = 0 then ReadRecord [''name'', ''version'']
                                  else ReadError ''unexpected EOF''))
     ''a''
     = Some (Inr \<lparr>entries = [(''pkg@1.0.0'', \<lparr>PackageName = ''pkg'', PackageVersion = ''1.0.0'',
                                                 OriginalVersion = ''1.0.0''\<rparr>)],
                  byName = [(''pkg'', [\<lparr>PackageName = ''pkg'', PackageVersion = ''1.0.0'',
                                        OriginalVersion = ''1.0.0''\<rparr>])],
                  totalEntries = 1\<rparr>)
   \<and> LoadFromURL lower
     (\<lambda>u. if u = ''a''
          then Response 200 (readerOf [Inr [''name'', ''version''], Inr [''pkg'', ''1.0.0'']])
          else Response 200 (\<lambda>i. if i = 0 then ReadRecord [''name'', ''version'']
                                  else ReadError ''unexpected EOF''))
     ''b''
     = None
   \<and> LoadFromMultipleURLs lower
     (\<lambda>u. if u = ''a''
          then Response 200 (readerOf [Inr [''name'', ''version''], Inr [''pkg'', ''1.0.0'']])
          else Response 200 (\<lambda>i. if i = 0 then ReadRecord [''name'', ''version'']
                                  else ReadError ''unexpected EOF''))
     order [''a'', ''b'']
     = None"
proof -
  let ?broken = "\<lambda>i::nat. if i = 0 then ReadRecord [''name'', ''version'']
                          else ReadError ''unexpected EOF''"
  let ?g = "\<lambda>u. if u = ''a''
          then Response 200 (readerOf [Inr [''name'', ''version''], Inr [''pkg'', ''1.0.0'']])
          else Response 200 ?broken"
  have ci: "columnIndices lower [''name'', ''version''] = (0, 1)"
    by code_simp
  have len: "(2::nat) \<le> length [''name'', ''version'']" by simp
  have run: "foldl Add NewVulnDB (concat (map (recordEntries 0 1)
        (keptRecords 2 [Inr [''pkg'', ''1.0.0'']]))) =
      \<lparr>entries = [(''pkg@1.0.0'', \<lparr>PackageName = ''pkg'', PackageVersion = ''1.0.0'',
                                                 OriginalVersion = ''1.0.0''\<rparr>)],
                  byName = [(''pkg'', [\<lparr>PackageName = ''pkg'', PackageVersion = ''1.0.0'',
                                        OriginalVersion = ''1.0.0''\<rparr>])],
                  totalEntries = 1\<rparr>"
    by code_simp
  have a: "LoadFromURL lower ?g ''a'' =
      Some (Inr \<lparr>entries = [(''pkg@1.0.0'', \<lparr>PackageName = ''pkg'', PackageVersion = ''1.0.0'',
                                                 OriginalVersion = ''1.0.0''\<rparr>)],
                  byName = [(''pkg'', [\<lparr>PackageName = ''pkg'', PackageVersion = ''1.0.0'',
                                        OriginalVersion = ''1.0.0''\<rparr>])],
                  totalEntries = 1\<rparr>)"
    using run by (simp add: LoadFromURL_def parseCSV_header[OF len ci])
  have "\<forall>j\<ge>1. \<exists>e. ?broken j = ReadError e" by simp
  then have "readRecords n ?broken 1 [] = None" for n
    by (rule readRecords_stuck)
  then have "parseCSV lower ?broken = None"
    using ci by (simp add: parseCSV_def)
  then have b: "LoadFromURL lower ?g ''b'' = None"
    by (simp add: LoadFromURL_def)
  have "loadLoop lower ?g order \<lparr>loadDB = NewVulnDB, loadErrors = [], successCount = 0\<rparr>
          [''a'', ''b''] = None"
    by (rule loadLoop_hangs[OF _ b]) simp
  then have "LoadFromMultipleURLs lower ?g order [''a'', ''b''] = None"
    by (simp add: LoadFromMultipleURLs_def)
  with a b show ?thesis by simp
qed

end
